theory Spec2Isabelle
  imports Complex_Main
begin

section \<open>Restart scheduling and trail reuse of the CDCL search (src/restart.cpp)\<close>

text \<open>
  The four member functions of \<^verbatim>\<open>restart.cpp\<close> (\<^verbatim>\<open>stabilizing\<close>, \<^verbatim>\<open>restarting\<close>,
  \<^verbatim>\<open>reuse_trail\<close>, \<^verbatim>\<open>restart\<close>) are embedded as functions on a record of the fields of
  \<^verbatim>\<open>Internal\<close> that they read or write.

  \<^item> The counters of type \<^verbatim>\<open>int64_t\<close> and the options of type \<^verbatim>\<open>int\<close> are integers of
    type \<open>int\<close>: signed overflow is undefined behaviour in C++, so the model describes
    every execution whose arithmetic stays in range.
  \<^item> \<^verbatim>\<open>level\<close>, \<^verbatim>\<open>res\<close> and the indices into \<^verbatim>\<open>control\<close> are never negative and are
    natural numbers; the cast \<^verbatim>\<open>(size_t) level\<close> is then the identity.
  \<^item> \<^verbatim>\<open>assert\<close> is a branch of the model: a failing assertion returns
    \<open>Inl AssertionFailed\<close>. A read of \<^verbatim>\<open>control\<close> beyond its size returns
    \<open>Inl OutOfRange\<close>.
  \<^item> The arithmetic on \<^verbatim>\<open>double\<close> is a parameter (\<open>fp_ops\<close>): the functions are defined,
    and the theorems hold, for every choice of the operations, IEEE binary64 included.
  \<^item> Timers (\<^verbatim>\<open>START\<close>, \<^verbatim>\<open>STOP\<close>) and log messages (\<^verbatim>\<open>LOG\<close>, \<^verbatim>\<open>PHASE\<close>) are left out; the
    characters passed to \<^verbatim>\<open>report\<close> are appended to a trace.
\<close>

subsection \<open>Data\<close>

datatype error = AssertionFailed | OutOfRange

text \<open>The operations on \<^verbatim>\<open>double\<close> that the code uses.\<close>

record 'd fp_ops =
  fp_of_int :: "int \<Rightarrow> 'd"            \<comment> \<open>conversion of an \<^verbatim>\<open>int\<close> or \<^verbatim>\<open>int64_t\<close> to \<^verbatim>\<open>double\<close>\<close>
  fp_to_int64 :: "'d \<Rightarrow> int"          \<comment> \<open>conversion of a \<^verbatim>\<open>double\<close> to \<^verbatim>\<open>int64_t\<close>\<close>
  fp_1e_2 :: "'d"                      \<comment> \<open>the literal \<^verbatim>\<open>1e-2\<close>\<close>
  fp_add :: "'d \<Rightarrow> 'd \<Rightarrow> 'd"
  fp_mul :: "'d \<Rightarrow> 'd \<Rightarrow> 'd"
  fp_div :: "'d \<Rightarrow> 'd \<Rightarrow> 'd"
  fp_le :: "'d \<Rightarrow> 'd \<Rightarrow> bool"

text \<open>The fields of \<^verbatim>\<open>opts\<close> read by \<^verbatim>\<open>restart.cpp\<close>.\<close>

record Options =
  opts_stabilize :: bool
  opts_stabilizeonly :: bool
  opts_stabilizefactor :: int
  opts_restart :: bool
  opts_restartmargin :: int
  opts_restartint :: int
  opts_restartreusetrail :: bool

text \<open>The fields of \<^verbatim>\<open>stats\<close> read or written by \<^verbatim>\<open>restart.cpp\<close>.\<close>

record Stats =
  stats_conflicts :: int
  stats_ticks_search :: int
  stats_stabphases :: int
  stats_restarts :: int
  stats_restartlevels :: int
  stats_restartstable :: int
  stats_reused :: int
  stats_reusedlevels :: int
  stats_reusedstable :: int

text \<open>\<^verbatim>\<open>averages.current.glue\<close> and \<^verbatim>\<open>averages.saved.glue\<close>: a fast and a slow moving average.\<close>

record 'd Glue =
  fast :: 'd
  slow :: 'd

text \<open>A frame of \<^verbatim>\<open>control\<close>: its decision literal, \<open>0\<close> for a pseudo-decision level.\<close>

record Level =
  decision :: int

record 'd Internal =
  opts :: Options
  stats :: Stats
  stable :: bool
  inc_stabilize :: int                    \<comment> \<open>\<^verbatim>\<open>inc.stabilize\<close>\<close>
  lim_stabilize :: int                    \<comment> \<open>\<^verbatim>\<open>lim.stabilize\<close>\<close>
  lim_restart :: int                      \<comment> \<open>\<^verbatim>\<open>lim.restart\<close>\<close>
  last_stabilize_conflicts :: int         \<comment> \<open>\<^verbatim>\<open>last.stabilize.conflicts\<close>\<close>
  last_stabilize_ticks :: int             \<comment> \<open>\<^verbatim>\<open>last.stabilize.ticks\<close>\<close>
  averages_current :: "'d Glue"           \<comment> \<open>\<^verbatim>\<open>averages.current.glue\<close>\<close>
  averages_saved :: "'d Glue"             \<comment> \<open>\<^verbatim>\<open>averages.saved.glue\<close>\<close>
  reluctant :: bool
  level :: nat
  assumptions :: "int list"
  control :: "Level list"
  next_decision_variable :: int
  use_scores :: bool
  score_smaller :: "int \<Rightarrow> int \<Rightarrow> bool"
  bumped :: "int \<Rightarrow> int"
  reports :: "char list"

subsection \<open>Collaborators that are not in the source files\<close>

text \<open>
  Modelled from the spec: \<^verbatim>\<open>report\<close>, the textual progress-report sink (one character per
  transition or restart). The character is appended to the trace \<open>reports\<close>.
\<close>

definition report :: "char \<Rightarrow> 'd Internal \<Rightarrow> 'd Internal" where
  "report c s = s\<lparr>reports := reports s @ [c]\<rparr>"

text \<open>
  Modelled from the spec: \<^verbatim>\<open>swap_averages\<close>, which exchanges the active and the alternate
  set of glue averages.
\<close>

definition swap_averages :: "'d Internal \<Rightarrow> 'd Internal" where
  "swap_averages s =
     s\<lparr>averages_current := averages_saved s, averages_saved := averages_current s\<rparr>"

text \<open>
  Modelled from the spec: \<^verbatim>\<open>backtrack\<close>, which truncates the decision state down to the
  given level, removing the frames strictly above it. A requested level above the
  current one is an internal-invariant failure.
\<close>

definition backtrack :: "nat \<Rightarrow> 'd Internal \<Rightarrow> error + 'd Internal" where
  "backtrack new_level s =
     (if level s < new_level then Inl AssertionFailed
      else Inr (s\<lparr>control := take (new_level + 1) (control s), level := new_level\<rparr>))"

text \<open>
  The other collaborators are fields of the state: \<open>reluctant\<close> is the fire signal of the
  reluctant-doubling generator, \<open>next_decision_variable\<close> the answer of the decision
  oracle, \<open>use_scores\<close> the flag that selects the ranking, \<open>score_smaller\<close> the strict
  order on scores and \<open>bumped\<close> the table of bump timestamps.
\<close>

subsection \<open>\<^verbatim>\<open>Internal::stabilizing\<close>\<close>

text \<open>
  Lines 29 to 62: the phase is switched and the next limit is scheduled.
  \<^verbatim>\<open>delta_conflicts\<close> is only printed by \<^verbatim>\<open>PHASE\<close>.
\<close>

definition stabilizing_switch :: "'d fp_ops \<Rightarrow> 'd Internal \<Rightarrow> bool \<times> 'd Internal" where
  "stabilizing_switch fp s =
     (let s1 = report (if stable s then CHR '']'' else CHR ''}'') s;
          delta_conflicts = stats_conflicts (stats s1) - last_stabilize_conflicts s1;
          delta_ticks = stats_ticks_search (stats s1) - last_stabilize_ticks s1;
          s2 = (if inc_stabilize s1 = 0 then s1\<lparr>inc_stabilize := delta_ticks\<rparr>
                else if stable s1 then
                  s1\<lparr>inc_stabilize :=
                       fp_to_int64 fp
                         (fp_mul fp (fp_of_int fp (inc_stabilize s1))
                            (fp_mul fp (fp_of_int fp (opts_stabilizefactor (opts s1)))
                               (fp_1e_2 fp)))\<rparr>
                else s1);
          s3 = s2\<lparr>lim_stabilize := stats_ticks_search (stats s2) + inc_stabilize s2\<rparr>;
          s4 = (if lim_stabilize s3 \<le> stats_ticks_search (stats s3)
                then s3\<lparr>lim_stabilize := stats_ticks_search (stats s3) + 1\<rparr>
                else s3);
          s5 = s4\<lparr>stable := \<not> stable s4\<rparr>;
          s6 = (if stable s5
                then s5\<lparr>stats := (stats s5)\<lparr>stats_stabphases :=
                                                  stats_stabphases (stats s5) + 1\<rparr>\<rparr>
                else s5);
          s7 = swap_averages s6;
          s8 = report (if stable s7 then CHR ''['' else CHR ''{'') s7
      in (stable s8, s8))"

definition stabilizing :: "'d fp_ops \<Rightarrow> 'd Internal \<Rightarrow> error + (bool \<times> 'd Internal)" where
  "stabilizing fp s =
     (if \<not> opts_stabilize (opts s) then Inr (False, s)
      else if stable s \<and> opts_stabilizeonly (opts s) then Inr (True, s)
      else if inc_stabilize s = 0 then
        (if stable s then Inl AssertionFailed
         else if stats_conflicts (stats s) \<le> lim_stabilize s then Inr (False, s)
         else Inr (stabilizing_switch fp s))
      else if stats_ticks_search (stats s) \<le> lim_stabilize s then Inr (stable s, s)
      else Inr (stabilizing_switch fp s))"

text \<open>
  \<^verbatim>\<open>stabilizing\<close> as compiled with \<^verbatim>\<open>NDEBUG\<close>: the assertion of line 24 is not evaluated.
\<close>

definition stabilizing_NDEBUG :: "'d fp_ops \<Rightarrow> 'd Internal \<Rightarrow> bool \<times> 'd Internal" where
  "stabilizing_NDEBUG fp s =
     (if \<not> opts_stabilize (opts s) then (False, s)
      else if stable s \<and> opts_stabilizeonly (opts s) then (True, s)
      else if inc_stabilize s = 0 then
        (if stats_conflicts (stats s) \<le> lim_stabilize s then (False, s)
         else stabilizing_switch fp s)
      else if stats_ticks_search (stats s) \<le> lim_stabilize s then (stable s, s)
      else stabilizing_switch fp s)"

text \<open>
  The search loop calls \<^verbatim>\<open>stabilizing\<close> once per conflict and changes the state between
  two calls. A sequence of calls is run from the list of these changes, one before each
  call; it stops at the first failing assertion.
\<close>

fun stabilizing_calls ::
  "'d fp_ops \<Rightarrow> ('d Internal \<Rightarrow> 'd Internal) list \<Rightarrow> 'd Internal \<Rightarrow>
     error + (bool list \<times> 'd Internal)" where
  "stabilizing_calls fp [] s = Inr ([], s)"
| "stabilizing_calls fp (env # envs) s =
     (case stabilizing fp (env s) of
        Inl e \<Rightarrow> Inl e
      | Inr (b, s') \<Rightarrow>
          (case stabilizing_calls fp envs s' of
             Inl e \<Rightarrow> Inl e
           | Inr (bs, s'') \<Rightarrow> Inr (b # bs, s'')))"

text \<open>A change of the search loop that only advances the conflict and tick counters.\<close>

definition advance :: "int \<Rightarrow> int \<Rightarrow> 'd Internal \<Rightarrow> 'd Internal" where
  "advance dc dt s =
     s\<lparr>stats := (stats s)\<lparr>stats_conflicts := stats_conflicts (stats s) + dc,
                            stats_ticks_search := stats_ticks_search (stats s) + dt\<rparr>\<rparr>"

subsection \<open>\<^verbatim>\<open>Internal::restarting\<close>\<close>

definition restarting :: "'d fp_ops \<Rightarrow> 'd Internal \<Rightarrow> error + (bool \<times> 'd Internal)" where
  "restarting fp s =
     (if \<not> opts_restart (opts s) then Inr (False, s)
      else if level s < length (assumptions s) + 2 then Inr (False, s)
      else
        (case stabilizing fp s of
           Inl e \<Rightarrow> Inl e
         | Inr (b, s') \<Rightarrow>
             if b then Inr (reluctant s', s')
             else if stats_conflicts (stats s') \<le> lim_restart s' then Inr (False, s')
             else
               (let f = fast (averages_current s');
                    margin = fp_div fp
                               (fp_add fp (fp_of_int fp 100)
                                  (fp_of_int fp (opts_restartmargin (opts s'))))
                               (fp_of_int fp 100);
                    sl = slow (averages_current s');
                    l = fp_mul fp margin sl
                in Inr (fp_le fp l f, s'))))"

subsection \<open>\<^verbatim>\<open>Internal::reuse_trail\<close>\<close>

text \<open>
  The two \<^verbatim>\<open>while\<close> loops of \<^verbatim>\<open>reuse_trail\<close> differ in the test on the decision literal
  of the frame \<open>res + 1\<close> only; \<open>keep\<close> is that test.
\<close>

function reuse_loop :: "(int \<Rightarrow> bool) \<Rightarrow> Level list \<Rightarrow> nat \<Rightarrow> nat \<Rightarrow> error + nat" where
  "reuse_loop keep ctrl lvl res =
     (if res < lvl then
        (if length ctrl \<le> res + 1 then Inl OutOfRange
         else if decision (ctrl ! (res + 1)) \<noteq> 0 \<and> keep (decision (ctrl ! (res + 1)))
           then reuse_loop keep ctrl lvl (res + 1)
           else Inr res)
      else Inr res)"
  by pat_completeness auto
termination
  by (relation "measure (\<lambda>(keep, ctrl, lvl, res). lvl - res)") auto

declare reuse_loop.simps [simp del]

definition trivial_decisions :: "'d Internal \<Rightarrow> nat" where
  "trivial_decisions s =
     length (assumptions s) +
     (if decision (control s ! (length (assumptions s) + 1)) = 0 then 1 else 0)"

definition reuse_trail :: "'d Internal \<Rightarrow> error + (nat \<times> 'd Internal)" where
  "reuse_trail s =
     (if length (control s) \<le> length (assumptions s) + 1 then Inl OutOfRange
      else if \<not> opts_restartreusetrail (opts s) then Inr (trivial_decisions s, s)
      else
        (let decision = next_decision_variable s in
         if \<not> 1 \<le> decision then Inl AssertionFailed
         else
           (case
              (if use_scores s
               then reuse_loop (\<lambda>lit. score_smaller s decision \<bar>lit\<bar>)
                      (control s) (level s) (trivial_decisions s)
               else
                 (let limit = bumped s decision
                  in reuse_loop (\<lambda>lit. bumped s lit > limit)
                       (control s) (level s) (trivial_decisions s)))
            of
              Inl e \<Rightarrow> Inl e
            | Inr res \<Rightarrow>
                (let reused = int res - int (trivial_decisions s) in
                 if reused > 0 then
                   (let s1 = s\<lparr>stats := (stats s)\<lparr>stats_reused := stats_reused (stats s) + 1\<rparr>\<rparr>;
                        s2 = s1\<lparr>stats := (stats s1)\<lparr>stats_reusedlevels :=
                                                       stats_reusedlevels (stats s1) + reused\<rparr>\<rparr>;
                        s3 = (if stable s2
                              then s2\<lparr>stats := (stats s2)\<lparr>stats_reusedstable :=
                                                     stats_reusedstable (stats s2) + 1\<rparr>\<rparr>
                              else s2)
                    in Inr (res, s3))
                 else Inr (res, s)))))"

subsection \<open>\<^verbatim>\<open>Internal::restart\<close>\<close>

definition restart :: "'d Internal \<Rightarrow> error + 'd Internal" where
  "restart s =
     (let s1 = s\<lparr>stats := (stats s)\<lparr>stats_restarts := stats_restarts (stats s) + 1\<rparr>\<rparr>;
          s2 = s1\<lparr>stats := (stats s1)\<lparr>stats_restartlevels :=
                                         stats_restartlevels (stats s1) + int (level s1)\<rparr>\<rparr>;
          s3 = (if stable s2
                then s2\<lparr>stats := (stats s2)\<lparr>stats_restartstable :=
                                               stats_restartstable (stats s2) + 1\<rparr>\<rparr>
                else s2)
      in case reuse_trail s3 of
           Inl e \<Rightarrow> Inl e
         | Inr (res, s4) \<Rightarrow>
             (case backtrack res s4 of
                Inl e \<Rightarrow> Inl e
              | Inr s5 \<Rightarrow>
                  (let s6 = s5\<lparr>lim_restart :=
                                 stats_conflicts (stats s5) + opts_restartint (opts s5)\<rparr>
                   in Inr (report (CHR ''R'') s6))))"

subsection \<open>Concrete states\<close>

text \<open>
  An instance of the operations on \<^verbatim>\<open>double\<close> in exact arithmetic. It agrees with IEEE
  binary64 wherever the result of binary64 is exact, as on the small integers of the
  states below.
\<close>

definition fp_exact :: "real fp_ops" where
  "fp_exact =
     \<lparr>fp_of_int = real_of_int,
      fp_to_int64 = (\<lambda>x. if 0 \<le> x then \<lfloor>x\<rfloor> else \<lceil>x\<rceil>),
      fp_1e_2 = 1 / 100,
      fp_add = (+), fp_mul = (*), fp_div = (/), fp_le = (\<le>)\<rparr>"

definition opts0 :: Options where
  "opts0 =
     \<lparr>opts_stabilize = True, opts_stabilizeonly = False, opts_stabilizefactor = 200,
      opts_restart = True, opts_restartmargin = 10, opts_restartint = 2,
      opts_restartreusetrail = True\<rparr>"

definition stats0 :: Stats where
  "stats0 =
     \<lparr>stats_conflicts = 0, stats_ticks_search = 0, stats_stabphases = 0,
      stats_restarts = 0, stats_restartlevels = 0, stats_restartstable = 0,
      stats_reused = 0, stats_reusedlevels = 0, stats_reusedstable = 0\<rparr>"

text \<open>
  A fresh search state: unstable, not calibrated, no assumptions, decision level 0, all
  counters 0. The states of the examples are updates of it.
\<close>

definition init :: "real Internal" where
  "init =
     \<lparr>opts = opts0, stats = stats0, stable = False, inc_stabilize = 0,
      lim_stabilize = 0, lim_restart = 0,
      last_stabilize_conflicts = 0, last_stabilize_ticks = 0,
      averages_current = \<lparr>fast = 0, slow = 0\<rparr>, averages_saved = \<lparr>fast = 0, slow = 0\<rparr>,
      reluctant = False, level = 0, assumptions = [], control = [\<lparr>decision = 0\<rparr>],
      next_decision_variable = 1, use_scores = False,
      score_smaller = (\<lambda>a b. a < b), bumped = (\<lambda>lit. \<bar>lit\<bar>), reports = []\<rparr>"

text \<open>A calibrated unstable state whose tick counter has passed the limit.\<close>

definition flip_state :: "real Internal" where
  "flip_state =
     init\<lparr>stats := stats0\<lparr>stats_conflicts := 1500, stats_ticks_search := 7000\<rparr>,
          inc_stabilize := 3000, lim_stabilize := 6000,
          averages_current := \<lparr>fast = 5, slow = 3\<rparr>\<rparr>"

text \<open>
  Scenario A of the spec: stabilization disabled, restarts enabled, base interval 5, no
  assumptions, level 6, fast glue average 10, slow glue average 4, margin 0 percent,
  conflict count 6 above the restart limit 5.
\<close>

definition scenario_a :: "real Internal" where
  "scenario_a =
     init\<lparr>opts := opts0\<lparr>opts_stabilize := False, opts_restartmargin := 0, opts_restartint := 5\<rparr>,
          stats := stats0\<lparr>stats_conflicts := 6\<rparr>, lim_restart := 5, level := 6,
          averages_current := \<lparr>fast = 10, slow = 4\<rparr>\<rparr>"

text \<open>
  An unstable, calibrated state in stabilize-only mode whose tick counter has passed the
  limit, and the stable state that the next call of \<open>stabilizing\<close> leaves from it.
\<close>

definition stabilizeonly_start :: "real Internal" where
  "stabilizeonly_start =
     flip_state\<lparr>opts := opts0\<lparr>opts_stabilizeonly := True\<rparr>, reluctant := True, level := 2\<rparr>"

definition stabilizeonly_state :: "real Internal" where
  "stabilizeonly_state =
     stabilizeonly_start\<lparr>stats := stats0\<lparr>stats_conflicts := 1500,
                                         stats_ticks_search := 7000, stats_stabphases := 1\<rparr>,
                         stable := True, lim_stabilize := 10000,
                         averages_current := \<lparr>fast = 0, slow = 0\<rparr>,
                         averages_saved := \<lparr>fast = 5, slow = 3\<rparr>, reports := ''}[''\<rparr>"

text \<open>
  Scenario D of the spec: activity-based ranking, no assumptions, three decision levels
  with the decisions 7, -9 and 2, whose bump timestamps are 7, 9 and 2; the next decision
  variable is 5, with timestamp 5.
\<close>

definition scenario_d :: "real Internal" where
  "scenario_d =
     init\<lparr>level := 3,
          control := [\<lparr>decision = 0\<rparr>, \<lparr>decision = 7\<rparr>, \<lparr>decision = - 9\<rparr>, \<lparr>decision = 2\<rparr>],
          next_decision_variable := 5\<rparr>"

text \<open>
  Scenario C of the spec: no assumptions, no pseudo-decision level, trail reuse disabled,
  level 4.
\<close>

definition scenario_c :: "real Internal" where
  "scenario_c =
     init\<lparr>opts := opts0\<lparr>opts_restartreusetrail := False\<rparr>, level := 4,
          control := [\<lparr>decision = 0\<rparr>, \<lparr>decision = 3\<rparr>, \<lparr>decision = - 4\<rparr>,
                      \<lparr>decision = 5\<rparr>, \<lparr>decision = 6\<rparr>]\<rparr>"

text \<open>Scenario D after \<open>reuse_trail\<close>: one reuse of two levels is counted.\<close>

definition scenario_d_after :: "real Internal" where
  "scenario_d_after =
     scenario_d\<lparr>stats := stats0\<lparr>stats_reused := 1, stats_reusedlevels := 2\<rparr>\<rparr>"

text \<open>
  A fresh, not calibrated state whose conflict count 1001 has passed the initial limit
  1000 while the tick counter 500 still equals \<^verbatim>\<open>last.stabilize.ticks\<close>.
\<close>

definition sentinel_state :: "real Internal" where
  "sentinel_state =
     init\<lparr>stats := stats0\<lparr>stats_conflicts := 1001, stats_ticks_search := 500\<rparr>,
          lim_stabilize := 1000, last_stabilize_ticks := 500\<rparr>"

text \<open>The state that the first call of \<open>stabilizing\<close> leaves from \<open>sentinel_state\<close>.\<close>

definition sentinel_after :: "real Internal" where
  "sentinel_after =
     sentinel_state\<lparr>stats := stats0\<lparr>stats_conflicts := 1001, stats_ticks_search := 500,
                                      stats_stabphases := 1\<rparr>,
                    stable := True, lim_stabilize := 501, reports := ''}[''\<rparr>"

text \<open>Scenario C after \<open>restart\<close>: the search is back at level 0.\<close>

definition scenario_c_restarted :: "real Internal" where
  "scenario_c_restarted =
     scenario_c\<lparr>stats := stats0\<lparr>stats_restarts := 1, stats_restartlevels := 4\<rparr>,
                level := 0, control := [\<lparr>decision = 0\<rparr>], lim_restart := 2,
                reports := ''R''\<rparr>"

text \<open>The state that \<open>stabilizing\<close> leaves from \<open>flip_state\<close>: stable, next limit 10000.\<close>

definition flip_state_after :: "real Internal" where
  "flip_state_after =
     flip_state\<lparr>stats := stats0\<lparr>stats_conflicts := 1500, stats_ticks_search := 7000,
                                  stats_stabphases := 1\<rparr>,
                stable := True, lim_stabilize := 10000,
                averages_current := \<lparr>fast = 0, slow = 0\<rparr>,
                averages_saved := \<lparr>fast = 5, slow = 3\<rparr>, reports := ''}[''\<rparr>"

text \<open>
  As \<open>sentinel_state\<close>, but the tick counter 500 has advanced since
  \<^verbatim>\<open>last.stabilize.ticks = 0\<close>; and the state that \<open>stabilizing\<close> leaves from it.
\<close>

definition calibrating_state :: "real Internal" where
  "calibrating_state = sentinel_state\<lparr>last_stabilize_ticks := 0\<rparr>"

definition calibrating_state_after :: "real Internal" where
  "calibrating_state_after =
     calibrating_state\<lparr>stats := stats0\<lparr>stats_conflicts := 1001, stats_ticks_search := 500,
                                         stats_stabphases := 1\<rparr>,
                       stable := True, inc_stabilize := 500, lim_stabilize := 1000,
                       reports := ''}[''\<rparr>"

text \<open>
  The state that a second call leaves from \<open>sentinel_after\<close> when the assertion is
  compiled away.
\<close>

definition sentinel_after2 :: "real Internal" where
  "sentinel_after2 = sentinel_after\<lparr>stable := False, reports := ''}[]{''\<rparr>"

subsection \<open>Properties of \<^verbatim>\<open>stabilizing\<close>\<close>

text \<open>The phase switch of lines 29 to 62 as one update of the state.\<close>

lemma stabilizing_switch_eq:
  "stabilizing_switch fp s =
     (\<not> stable s,
      s\<lparr>stats := (if stable s then stats s
                  else (stats s)\<lparr>stats_stabphases := stats_stabphases (stats s) + 1\<rparr>),
        stable := \<not> stable s,
        inc_stabilize :=
          (if inc_stabilize s = 0 then stats_ticks_search (stats s) - last_stabilize_ticks s
           else if stable s then
             fp_to_int64 fp
               (fp_mul fp (fp_of_int fp (inc_stabilize s))
                  (fp_mul fp (fp_of_int fp (opts_stabilizefactor (opts s))) (fp_1e_2 fp)))
           else inc_stabilize s),
        lim_stabilize :=
          (let i = (if inc_stabilize s = 0
                    then stats_ticks_search (stats s) - last_stabilize_ticks s
                    else if stable s then
                      fp_to_int64 fp
                        (fp_mul fp (fp_of_int fp (inc_stabilize s))
                           (fp_mul fp (fp_of_int fp (opts_stabilizefactor (opts s)))
                              (fp_1e_2 fp)))
                    else inc_stabilize s)
           in if stats_ticks_search (stats s) + i \<le> stats_ticks_search (stats s)
              then stats_ticks_search (stats s) + 1
              else stats_ticks_search (stats s) + i),
        averages_current := averages_saved s,
        averages_saved := averages_current s,
        reports := reports s @ (if stable s then '']{'' else ''}['')\<rparr>)"
proof -
  define c1 where "c1 = (if stable s then CHR '']'' else CHR ''}'')"
  define c2 where "c2 = (if stable s then CHR ''{'' else CHR ''['')"
  define i where "i =
      (if inc_stabilize s = 0 then stats_ticks_search (stats s) - last_stabilize_ticks s
       else if stable s then
         fp_to_int64 fp
           (fp_mul fp (fp_of_int fp (inc_stabilize s))
              (fp_mul fp (fp_of_int fp (opts_stabilizefactor (opts s))) (fp_1e_2 fp)))
       else inc_stabilize s)"
  define l where "l =
      (if stats_ticks_search (stats s) + i \<le> stats_ticks_search (stats s)
       then stats_ticks_search (stats s) + 1 else stats_ticks_search (stats s) + i)"
  define st where "st =
      (if stable s then stats s
       else (stats s)\<lparr>stats_stabphases := stats_stabphases (stats s) + 1\<rparr>)"
  define s1 where "s1 = report (if stable s then CHR '']'' else CHR ''}'') s"
  define s2 where "s2 =
      (if inc_stabilize s1 = 0
       then s1\<lparr>inc_stabilize := stats_ticks_search (stats s1) - last_stabilize_ticks s1\<rparr>
       else if stable s1 then
         s1\<lparr>inc_stabilize :=
              fp_to_int64 fp
                (fp_mul fp (fp_of_int fp (inc_stabilize s1))
                   (fp_mul fp (fp_of_int fp (opts_stabilizefactor (opts s1)))
                      (fp_1e_2 fp)))\<rparr>
       else s1)"
  define s3 where "s3 = s2\<lparr>lim_stabilize := stats_ticks_search (stats s2) + inc_stabilize s2\<rparr>"
  define s4 where "s4 =
      (if lim_stabilize s3 \<le> stats_ticks_search (stats s3)
       then s3\<lparr>lim_stabilize := stats_ticks_search (stats s3) + 1\<rparr> else s3)"
  define s5 where "s5 = s4\<lparr>stable := \<not> stable s4\<rparr>"
  define s6 where "s6 =
      (if stable s5
       then s5\<lparr>stats := (stats s5)\<lparr>stats_stabphases := stats_stabphases (stats s5) + 1\<rparr>\<rparr>
       else s5)"
  define s7 where "s7 = swap_averages s6"
  define s8 where "s8 = report (if stable s7 then CHR ''['' else CHR ''{'') s7"
  have sw: "stabilizing_switch fp s = (stable s8, s8)"
    unfolding stabilizing_switch_def Let_def s8_def s7_def s6_def s5_def s4_def s3_def s2_def
      s1_def by (rule refl)
  have e1: "s1 = s\<lparr>reports := reports s @ [c1]\<rparr>"
    by (simp add: s1_def report_def c1_def)
  have e2: "s2 = s\<lparr>inc_stabilize := i, reports := reports s @ [c1]\<rparr>"
    by (simp add: s2_def e1 i_def)
  have e3: "s3 = s\<lparr>inc_stabilize := i, lim_stabilize := stats_ticks_search (stats s) + i,
                  reports := reports s @ [c1]\<rparr>"
    by (simp add: s3_def e2)
  have e4: "s4 = s\<lparr>inc_stabilize := i, lim_stabilize := l, reports := reports s @ [c1]\<rparr>"
    by (simp add: s4_def e3 l_def)
  have e5: "s5 = s\<lparr>stable := \<not> stable s, inc_stabilize := i, lim_stabilize := l,
                  reports := reports s @ [c1]\<rparr>"
    by (simp add: s5_def e4)
  have e6: "s6 = s\<lparr>stats := st, stable := \<not> stable s, inc_stabilize := i,
                  lim_stabilize := l, reports := reports s @ [c1]\<rparr>"
    by (simp add: s6_def e5 st_def)
  have e7: "s7 = s\<lparr>stats := st, stable := \<not> stable s, inc_stabilize := i,
                  lim_stabilize := l, averages_current := averages_saved s,
                  averages_saved := averages_current s, reports := reports s @ [c1]\<rparr>"
    by (simp add: s7_def e6 swap_averages_def)
  have e8: "s8 = s\<lparr>stats := st, stable := \<not> stable s, inc_stabilize := i,
                  lim_stabilize := l, averages_current := averages_saved s,
                  averages_saved := averages_current s, reports := reports s @ [c1, c2]\<rparr>"
    by (simp add: s8_def e7 report_def c2_def)
  have r: "[c1, c2] = (if stable s then '']{'' else ''}['')"
    by (simp add: c1_def c2_def)
  show ?thesis
    unfolding sw e8 r Let_def by (simp add: st_def i_def l_def)
qed

lemma stabilizing_switch_ticks:
  "stats_ticks_search (stats (snd (stabilizing_switch fp s))) = stats_ticks_search (stats s)"
  by (simp add: stabilizing_switch_eq)

lemma stabilizing_switch_stable:
  "stable (snd (stabilizing_switch fp s)) = (\<not> stable s)"
  "fst (stabilizing_switch fp s) = (\<not> stable s)"
  by (simp_all add: stabilizing_switch_eq)

lemma stabilizing_switch_inc:
  "inc_stabilize (snd (stabilizing_switch fp s)) =
     (if inc_stabilize s = 0 then stats_ticks_search (stats s) - last_stabilize_ticks s
      else if stable s then
        fp_to_int64 fp
          (fp_mul fp (fp_of_int fp (inc_stabilize s))
             (fp_mul fp (fp_of_int fp (opts_stabilizefactor (opts s))) (fp_1e_2 fp)))
      else inc_stabilize s)"
  by (simp add: stabilizing_switch_eq)

lemma stabilizing_switch_lim:
  "lim_stabilize (snd (stabilizing_switch fp s)) =
     (if stats_ticks_search (stats s) + inc_stabilize (snd (stabilizing_switch fp s))
           \<le> stats_ticks_search (stats s)
      then stats_ticks_search (stats s) + 1
      else stats_ticks_search (stats s) + inc_stabilize (snd (stabilizing_switch fp s)))"
  by (simp add: stabilizing_switch_eq Let_def)

lemma stabilizing_switch_frame:
  "stats_conflicts (stats (snd (stabilizing_switch fp s))) = stats_conflicts (stats s)"
  "lim_restart (snd (stabilizing_switch fp s)) = lim_restart s"
  "opts (snd (stabilizing_switch fp s)) = opts s"
  "level (snd (stabilizing_switch fp s)) = level s"
  "assumptions (snd (stabilizing_switch fp s)) = assumptions s"
  "reluctant (snd (stabilizing_switch fp s)) = reluctant s"
  by (simp_all add: stabilizing_switch_eq)

lemma stabilizing_switch_averages:
  "averages_current (snd (stabilizing_switch fp s)) = averages_saved s"
  "averages_saved (snd (stabilizing_switch fp s)) = averages_current s"
  "stats_stabphases (stats (snd (stabilizing_switch fp s))) =
     stats_stabphases (stats s) + (if stable s then 0 else 1)"
  by (simp_all add: stabilizing_switch_eq)

lemma stabilizing_switch_neq: "stabilizing_switch fp s \<noteq> (b, s)"
proof
  assume "stabilizing_switch fp s = (b, s)"
  then have "stable (snd (stabilizing_switch fp s)) = stable s" by simp
  then show False by (simp add: stabilizing_switch_stable)
qed

text \<open>A call that returns either leaves the state as it is or switches the phase.\<close>

lemma stabilizing_cases:
  assumes "stabilizing fp s = Inr (b, s')"
  shows "(s' = s) \<or> (b, s') = stabilizing_switch fp s"
  using assms by (auto simp: stabilizing_def split: if_splits)

lemma stabilizing_changed:
  assumes "stabilizing fp s = Inr (b, s')" and "s' \<noteq> s"
  shows "opts_stabilize (opts s) \<and> s' = snd (stabilizing_switch fp s) \<and> b = (\<not> stable s)"
proof -
  from assms have en: "opts_stabilize (opts s)" and sw: "(b, s') = stabilizing_switch fp s"
    by (auto simp: stabilizing_def split: if_splits)
  from sw have "s' = snd (stabilizing_switch fp s)" "b = fst (stabilizing_switch fp s)"
    by (metis snd_conv, metis fst_conv)
  with en show ?thesis by (simp add: stabilizing_switch_stable)
qed

lemma stabilizing_preserves:
  assumes "stabilizing fp s = Inr (b, s')"
  shows "stats_conflicts (stats s') = stats_conflicts (stats s) \<and> lim_restart s' = lim_restart s \<and>
         opts s' = opts s \<and> level s' = level s \<and> assumptions s' = assumptions s \<and>
         reluctant s' = reluctant s"
proof (cases "s' = s")
  case True
  then show ?thesis by simp
next
  case False
  from stabilizing_changed [OF assms False]
  have "s' = snd (stabilizing_switch fp s)" by simp
  then show ?thesis by (simp add: stabilizing_switch_frame)
qed

text \<open>
  What \<open>stabilizing\<close> reports is the stable flag it leaves, unless the stabilization
  feature is disabled.
\<close>

lemma stabilizing_reports_flag:
  assumes "stabilizing fp s = Inr (b, s')"
  shows "b = (opts_stabilize (opts s) \<and> stable s')"
proof (cases "s' = s")
  case True
  with assms have "stabilizing fp s = Inr (b, s)" by simp
  then have "b = (opts_stabilize (opts s) \<and> stable s)"
    by (auto simp: stabilizing_def stabilizing_switch_neq split: if_splits)
  with True show ?thesis by simp
next
  case False
  from stabilizing_changed [OF assms False]
  have "opts_stabilize (opts s)" "s' = snd (stabilizing_switch fp s)" "b = (\<not> stable s)"
    by simp_all
  then show ?thesis by (simp add: stabilizing_switch_stable)
qed

text \<open>
  C4. After every phase flip performed by \<open>stabilizing\<close> (a call that returns with the
  stable flag changed), the new stabilize limit strictly exceeds the tick count of the
  flip: it is the tick count plus the new interval, and the tick count plus 1 when that
  sum does not strictly exceed the tick count. The tick count is not changed by the call.
\<close>

theorem stabilizing_flip_limit_exceeds_ticks:
  assumes "stabilizing fp s = Inr (b, s')" and "stable s' \<noteq> stable s"
  shows "stats_ticks_search (stats s) < lim_stabilize s' \<and>
         stats_ticks_search (stats s') = stats_ticks_search (stats s) \<and>
         lim_stabilize s' =
           (if stats_ticks_search (stats s) < stats_ticks_search (stats s) + inc_stabilize s'
            then stats_ticks_search (stats s) + inc_stabilize s'
            else stats_ticks_search (stats s) + 1)"
proof -
  from assms(2) have "s' \<noteq> s" by auto
  from stabilizing_changed [OF assms(1) this]
  have s': "s' = snd (stabilizing_switch fp s)" by simp
  have lim: "lim_stabilize s' =
      (if stats_ticks_search (stats s) + inc_stabilize s' \<le> stats_ticks_search (stats s)
       then stats_ticks_search (stats s) + 1
       else stats_ticks_search (stats s) + inc_stabilize s')"
    unfolding s' by (rule stabilizing_switch_lim)
  have ticks: "stats_ticks_search (stats s') = stats_ticks_search (stats s)"
    unfolding s' by (rule stabilizing_switch_ticks)
  from lim ticks show ?thesis
    by (simp split: if_splits)
qed

lemma flip_state_run: "stabilizing fp_exact flip_state = Inr (True, flip_state_after)"
  by (simp add: stabilizing_def stabilizing_switch_eq flip_state_def flip_state_after_def
      init_def opts0_def stats0_def Let_def)

theorem stabilizing_flip_limit_exceeds_ticks_witness:
  "stabilizing fp_exact flip_state = Inr (True, flip_state_after) \<and>
   stable flip_state_after \<and> \<not> stable flip_state \<and>
   stats_ticks_search (stats flip_state) = 7000 \<and> inc_stabilize flip_state_after = 3000 \<and>
   lim_stabilize flip_state_after = 10000"
proof -
  have v: "stable flip_state_after" "\<not> stable flip_state"
    "stats_ticks_search (stats flip_state) = 7000" "inc_stabilize flip_state_after = 3000"
    by (simp_all add: flip_state_def flip_state_after_def init_def stats0_def)
  then have "stable flip_state_after \<noteq> stable flip_state" by simp
  from stabilizing_flip_limit_exceeds_ticks [OF flip_state_run this] v flip_state_run
  show ?thesis by simp
qed

text \<open>
  With the stabilization feature disabled, \<open>stabilizing\<close> returns false and leaves the
  state as it is.
\<close>

theorem stabilizing_disabled:
  "\<not> opts_stabilize (opts s) \<Longrightarrow> stabilizing fp s = Inr (False, s)"
  by (simp add: stabilizing_def)

theorem stabilizing_disabled_witness:
  "stabilizing fp_exact scenario_a = Inr (False, scenario_a)"
proof -
  have "\<not> opts_stabilize (opts scenario_a)"
    by (simp add: scenario_a_def init_def opts0_def)
  from stabilizing_disabled [OF this] show ?thesis .
qed

text \<open>
  A call of \<open>stabilizing\<close> that changes the stable flag also swaps the two sets of glue
  averages, and increments \<open>stats.stabphases\<close> exactly when the new phase is stable.
\<close>

theorem stabilizing_flip_paired:
  assumes "stabilizing fp s = Inr (b, s')" and "stable s' \<noteq> stable s"
  shows "averages_current s' = averages_saved s \<and> averages_saved s' = averages_current s \<and>
         stats_stabphases (stats s') = stats_stabphases (stats s) + (if stable s' then 1 else 0)"
proof -
  from assms(2) have "s' \<noteq> s" by auto
  from stabilizing_changed [OF assms(1) this]
  have s': "s' = snd (stabilizing_switch fp s)" by simp
  show ?thesis unfolding s'
    by (simp add: stabilizing_switch_averages stabilizing_switch_stable)
qed

theorem stabilizing_flip_paired_witness:
  "stabilizing fp_exact flip_state = Inr (True, flip_state_after) \<and>
   stable flip_state_after \<and> \<not> stable flip_state \<and>
   averages_current flip_state_after = averages_saved flip_state \<and>
   averages_saved flip_state_after = averages_current flip_state \<and>
   stats_stabphases (stats flip_state_after) = stats_stabphases (stats flip_state) + 1"
proof -
  have f: "stable flip_state_after" "\<not> stable flip_state"
    by (simp_all add: flip_state_def flip_state_after_def init_def)
  then have "stable flip_state_after \<noteq> stable flip_state" by simp
  from stabilizing_flip_paired [OF flip_state_run this] f flip_state_run
  show ?thesis by simp
qed

text \<open>
  A second call of \<open>stabilizing\<close>, with no counter advanced, returns what the first call
  returned and leaves the state of the first call as it is, provided the first call left
  an interval other than 0.
\<close>

theorem stabilizing_idempotent:
  assumes "stabilizing fp s = Inr (b, s')" and "inc_stabilize s' \<noteq> 0"
  shows "stabilizing fp s' = Inr (b, s')"
proof (cases "s' = s")
  case True
  with assms show ?thesis by simp
next
  case False
  from stabilizing_changed [OF assms(1) False]
  have en: "opts_stabilize (opts s)" and s': "s' = snd (stabilizing_switch fp s)"
    and b: "b = (\<not> stable s)" by simp_all
  have o: "opts s' = opts s" unfolding s' by (rule stabilizing_switch_frame)
  have st: "stable s' = b" unfolding s' b by (rule stabilizing_switch_stable)
  have t: "stats_ticks_search (stats s') = stats_ticks_search (stats s)"
    unfolding s' by (rule stabilizing_switch_ticks)
  have "lim_stabilize s' =
      (if stats_ticks_search (stats s) + inc_stabilize s' \<le> stats_ticks_search (stats s)
       then stats_ticks_search (stats s) + 1
       else stats_ticks_search (stats s) + inc_stabilize s')"
    unfolding s' by (rule stabilizing_switch_lim)
  with t have "stats_ticks_search (stats s') \<le> lim_stabilize s'"
    by (simp split: if_splits)
  with en o st assms(2) show ?thesis
    by (simp add: stabilizing_def)
qed

theorem stabilizing_idempotent_witness:
  "stabilizing fp_exact flip_state = Inr (True, flip_state_after) \<and>
   inc_stabilize flip_state_after = 3000 \<and>
   stabilizing fp_exact flip_state_after = Inr (True, flip_state_after)"
proof -
  have inc: "inc_stabilize flip_state_after = 3000"
    by (simp add: flip_state_after_def flip_state_def init_def)
  then have "inc_stabilize flip_state_after \<noteq> 0" by simp
  from stabilizing_idempotent [OF flip_state_run this] flip_state_run inc
  show ?thesis by simp
qed

text \<open>
  The assertion of line 24 (an interval 0 only in the unstable phase) is kept by a call
  of \<open>stabilizing\<close>, provided the tick counter differs from \<^verbatim>\<open>last.stabilize.ticks\<close> when
  the interval is 0.
\<close>

theorem stabilizing_assertion_invariant:
  assumes "stabilizing fp s = Inr (b, s')"
    and "inc_stabilize s = 0 \<longrightarrow> \<not> stable s"
    and "inc_stabilize s = 0 \<longrightarrow> stats_ticks_search (stats s) \<noteq> last_stabilize_ticks s"
  shows "inc_stabilize s' = 0 \<longrightarrow> \<not> stable s'"
proof (cases "s' = s")
  case True
  with assms show ?thesis by simp
next
  case False
  from stabilizing_changed [OF assms(1) False]
  have s': "s' = snd (stabilizing_switch fp s)" by simp
  have st: "stable s' = (\<not> stable s)" unfolding s' by (rule stabilizing_switch_stable)
  show ?thesis
  proof (cases "inc_stabilize s = 0")
    case True
    then have "inc_stabilize s' = stats_ticks_search (stats s) - last_stabilize_ticks s"
      unfolding s' by (simp add: stabilizing_switch_inc)
    with True assms(3) show ?thesis by simp
  next
    case nz: False
    show ?thesis
    proof (cases "stable s")
      case True
      with st show ?thesis by simp
    next
      case False
      with nz have "inc_stabilize s' = inc_stabilize s"
        unfolding s' by (simp add: stabilizing_switch_inc)
      with nz show ?thesis by simp
    qed
  qed
qed

theorem stabilizing_assertion_invariant_witness:
  "stabilizing fp_exact calibrating_state = Inr (True, calibrating_state_after) \<and>
   inc_stabilize calibrating_state = 0 \<and> \<not> stable calibrating_state \<and>
   inc_stabilize calibrating_state_after = 500 \<and> stable calibrating_state_after"
proof -
  have run: "stabilizing fp_exact calibrating_state = Inr (True, calibrating_state_after)"
    by (simp add: stabilizing_def stabilizing_switch_eq calibrating_state_def
        calibrating_state_after_def sentinel_state_def init_def opts0_def stats0_def Let_def)
  have a: "inc_stabilize calibrating_state = 0 \<longrightarrow> \<not> stable calibrating_state"
    "inc_stabilize calibrating_state = 0 \<longrightarrow>
     stats_ticks_search (stats calibrating_state) \<noteq> last_stabilize_ticks calibrating_state"
    by (simp_all add: calibrating_state_def sentinel_state_def init_def stats0_def)
  have v: "inc_stabilize calibrating_state = 0" "\<not> stable calibrating_state"
    "inc_stabilize calibrating_state_after = 500" "stable calibrating_state_after"
    by (simp_all add: calibrating_state_def calibrating_state_after_def sentinel_state_def
        init_def)
  from stabilizing_assertion_invariant [OF run a] v run show ?thesis by simp
qed

subsection \<open>Properties of \<^verbatim>\<open>restarting\<close>\<close>

text \<open>
  C6. \<open>restarting\<close> returns false (i) when the restart feature is disabled, (ii) when
  the decision depth is less than the assumption count plus 2, and (iii) when the phase is
  unstable and the conflict count is at most the restart limit. The phase is the one
  that \<open>stabilizing\<close> reports in this call (\<open>stabilizing_reports_flag\<close>: the stable flag
  it leaves, and unstable when the stabilization feature is disabled). In case (iii)
  nothing is assumed about the glue averages.
\<close>

theorem restarting_false_cases:
  "(\<not> opts_restart (opts s) \<longrightarrow> restarting fp s = Inr (False, s)) \<and>
   (level s < length (assumptions s) + 2 \<longrightarrow> restarting fp s = Inr (False, s)) \<and>
   (stabilizing fp s = Inr (False, s') \<and> stats_conflicts (stats s) \<le> lim_restart s \<longrightarrow>
      (\<exists>s''. restarting fp s = Inr (False, s'')))"
proof (intro conjI impI)
  show "restarting fp s = Inr (False, s)" if "\<not> opts_restart (opts s)"
    using that by (simp add: restarting_def)
  show "restarting fp s = Inr (False, s)" if "level s < length (assumptions s) + 2"
    using that by (simp add: restarting_def)
  assume h: "stabilizing fp s = Inr (False, s') \<and> stats_conflicts (stats s) \<le> lim_restart s"
  then have st: "stabilizing fp s = Inr (False, s')" by simp
  from stabilizing_preserves [OF st] h
  have "stats_conflicts (stats s') \<le> lim_restart s'" by simp
  with st show "\<exists>s''. restarting fp s = Inr (False, s'')"
    by (simp add: restarting_def)
qed

theorem restarting_false_cases_witness:
  "\<not> opts_restart (opts (init\<lparr>opts := opts0\<lparr>opts_restart := False\<rparr>\<rparr>)) \<and>
   restarting fp_exact (init\<lparr>opts := opts0\<lparr>opts_restart := False\<rparr>\<rparr>) =
     Inr (False, init\<lparr>opts := opts0\<lparr>opts_restart := False\<rparr>\<rparr>) \<and>
   level init < length (assumptions init) + 2 \<and>
   restarting fp_exact init = Inr (False, init) \<and>
   stabilizing fp_exact (scenario_a\<lparr>stats := stats0\<lparr>stats_conflicts := 4\<rparr>\<rparr>) =
     Inr (False, scenario_a\<lparr>stats := stats0\<lparr>stats_conflicts := 4\<rparr>\<rparr>) \<and>
   stats_conflicts (stats (scenario_a\<lparr>stats := stats0\<lparr>stats_conflicts := 4\<rparr>\<rparr>))
     \<le> lim_restart (scenario_a\<lparr>stats := stats0\<lparr>stats_conflicts := 4\<rparr>\<rparr>) \<and>
   restarting fp_exact (scenario_a\<lparr>stats := stats0\<lparr>stats_conflicts := 4\<rparr>\<rparr>) =
     Inr (False, scenario_a\<lparr>stats := stats0\<lparr>stats_conflicts := 4\<rparr>\<rparr>)"
proof -
  let ?d = "init\<lparr>opts := opts0\<lparr>opts_restart := False\<rparr>\<rparr>"
  let ?t = "scenario_a\<lparr>stats := stats0\<lparr>stats_conflicts := 4\<rparr>\<rparr>"
  have d: "\<not> opts_restart (opts ?d)" by (simp add: init_def opts0_def)
  have l: "level init < length (assumptions init) + 2" by (simp add: init_def)
  have st: "stabilizing fp_exact ?t = Inr (False, ?t)"
    by (simp add: stabilizing_def scenario_a_def init_def opts0_def)
  have c: "stats_conflicts (stats ?t) \<le> lim_restart ?t"
    by (simp add: scenario_a_def init_def stats0_def)
  from restarting_false_cases [of ?d fp_exact] d
  have 1: "restarting fp_exact ?d = Inr (False, ?d)" by blast
  from restarting_false_cases [of init fp_exact] l
  have 2: "restarting fp_exact init = Inr (False, init)" by blast
  from restarting_false_cases [of ?t fp_exact ?t] st c
  obtain s'' where s'': "restarting fp_exact ?t = Inr (False, s'')" by blast
  from st c have "restarting fp_exact ?t = Inr (False, ?t) \<or> \<not> opts_restart (opts ?t)"
    by (simp add: restarting_def)
  with s'' have 3: "restarting fp_exact ?t = Inr (False, ?t)"
    by (auto simp: restarting_def)
  from d l st c 1 2 3 show ?thesis by blast
qed

text \<open>
  C3. With the restart feature enabled, a decision depth of at least the assumption count
  plus 2, the phase unstable (\<open>stabilizing\<close> reports false in this call, leaving the state
  \<open>s'\<close>) and the conflict count above the restart limit, \<open>restarting\<close> returns the
  comparison \<^verbatim>\<open>margin * slow <= fast\<close> with \<^verbatim>\<open>margin = (100 + restartmargin) / 100\<close>, computed in
  the arithmetic of \<^verbatim>\<open>double\<close> on the averages that are current after \<open>stabilizing\<close>. In
  scenario A (margin 0 percent, fast 10, slow 4, conflict count 6 above the limit 5) it
  returns true.
\<close>

theorem restarting_unstable_ema:
  "(opts_restart (opts s) \<and> length (assumptions s) + 2 \<le> level s \<and>
    stabilizing fp s = Inr (False, s') \<and> lim_restart s < stats_conflicts (stats s) \<longrightarrow>
      restarting fp s =
        Inr (fp_le fp
               (fp_mul fp
                  (fp_div fp
                     (fp_add fp (fp_of_int fp 100) (fp_of_int fp (opts_restartmargin (opts s))))
                     (fp_of_int fp 100))
                  (slow (averages_current s')))
               (fast (averages_current s')), s')) \<and>
   (\<not> opts_stabilize (opts t) \<and> opts_restart (opts t) \<and> assumptions t = [] \<and> level t = 6 \<and>
    opts_restartmargin (opts t) = 0 \<and> fast (averages_current t) = 10 \<and>
    slow (averages_current t) = 4 \<and> stats_conflicts (stats t) = 6 \<and> lim_restart t = 5 \<longrightarrow>
      restarting fp_exact t = Inr (True, t))"
proof (intro conjI impI)
  assume h: "opts_restart (opts s) \<and> length (assumptions s) + 2 \<le> level s \<and>
    stabilizing fp s = Inr (False, s') \<and> lim_restart s < stats_conflicts (stats s)"
  then have st: "stabilizing fp s = Inr (False, s')" by simp
  from stabilizing_preserves [OF st] h
  have "\<not> stats_conflicts (stats s') \<le> lim_restart s'" "opts s' = opts s" by simp_all
  with st h show "restarting fp s =
        Inr (fp_le fp
               (fp_mul fp
                  (fp_div fp
                     (fp_add fp (fp_of_int fp 100) (fp_of_int fp (opts_restartmargin (opts s))))
                     (fp_of_int fp 100))
                  (slow (averages_current s')))
               (fast (averages_current s')), s')"
    by (simp add: restarting_def Let_def)
next
  assume h: "\<not> opts_stabilize (opts t) \<and> opts_restart (opts t) \<and> assumptions t = [] \<and> level t = 6 \<and>
    opts_restartmargin (opts t) = 0 \<and> fast (averages_current t) = 10 \<and>
    slow (averages_current t) = 4 \<and> stats_conflicts (stats t) = 6 \<and> lim_restart t = 5"
  then have st: "stabilizing fp_exact t = Inr (False, t)"
    by (simp add: stabilizing_def)
  with h show "restarting fp_exact t = Inr (True, t)"
    by (simp add: restarting_def Let_def fp_exact_def)
qed

theorem restarting_unstable_ema_witness:
  "restarting fp_exact scenario_a = Inr (True, scenario_a) \<and>
   restarting fp_exact (scenario_a\<lparr>averages_current := \<lparr>fast = 4, slow = 10\<rparr>\<rparr>) =
     Inr (False, scenario_a\<lparr>averages_current := \<lparr>fast = 4, slow = 10\<rparr>\<rparr>)"
proof -
  let ?u = "scenario_a\<lparr>averages_current := \<lparr>fast = 4, slow = 10\<rparr>\<rparr>"
  have a: "\<not> opts_stabilize (opts scenario_a) \<and> opts_restart (opts scenario_a) \<and>
      assumptions scenario_a = [] \<and> level scenario_a = 6 \<and>
      opts_restartmargin (opts scenario_a) = 0 \<and> fast (averages_current scenario_a) = 10 \<and>
      slow (averages_current scenario_a) = 4 \<and> stats_conflicts (stats scenario_a) = 6 \<and>
      lim_restart scenario_a = 5"
    by (simp add: scenario_a_def init_def opts0_def stats0_def)
  have st: "stabilizing fp_exact ?u = Inr (False, ?u)"
    by (simp add: stabilizing_def scenario_a_def init_def opts0_def)
  have b: "opts_restart (opts ?u) \<and> length (assumptions ?u) + 2 \<le> level ?u \<and>
      lim_restart ?u < stats_conflicts (stats ?u)"
    by (simp add: scenario_a_def init_def opts0_def stats0_def)
  have m: "opts_restartmargin (opts scenario_a) = 0"
    by (simp add: scenario_a_def init_def opts0_def)
  from restarting_unstable_ema [of ?u fp_exact ?u scenario_a] a
  have 1: "restarting fp_exact scenario_a = Inr (True, scenario_a)" by blast
  from restarting_unstable_ema [of ?u fp_exact ?u scenario_a] st b
  have "restarting fp_exact ?u =
        Inr (fp_le fp_exact
               (fp_mul fp_exact
                  (fp_div fp_exact
                     (fp_add fp_exact (fp_of_int fp_exact 100) (fp_of_int fp_exact (opts_restartmargin (opts ?u))))
                     (fp_of_int fp_exact 100))
                  (slow (averages_current ?u)))
               (fast (averages_current ?u)), ?u)" by blast
  then have 2: "restarting fp_exact ?u = Inr (False, ?u)"
    by (simp add: m fp_exact_def)
  from 1 2 show ?thesis by simp
qed

lemma stabilizeonly_step:
  assumes "opts_stabilize (opts s)" and "opts_stabilizeonly (opts s)" and "stable s"
  shows "stabilizing fp s = Inr (True, s)"
  using assms by (simp add: stabilizing_def)

lemma stabilizeonly_calls:
  assumes "opts_stabilize (opts s)" and "opts_stabilizeonly (opts s)" and "stable s"
    and "\<forall>env \<in> set envs. \<forall>u. opts (env u) = opts u \<and> stable (env u) = stable u"
  shows "\<exists>s'. stabilizing_calls fp envs s = Inr (replicate (length envs) True, s') \<and>
              stable s' \<and> opts s' = opts s"
  using assms
proof (induction envs arbitrary: s)
  case Nil
  then show ?case by simp
next
  case (Cons env envs)
  from Cons.prems have e: "opts (env s) = opts s" "stable (env s) = stable s" by simp_all
  with Cons.prems have h: "opts_stabilize (opts (env s))" "opts_stabilizeonly (opts (env s))"
    "stable (env s)" by simp_all
  from stabilizeonly_step [OF h] have st: "stabilizing fp (env s) = Inr (True, env s)" .
  from Cons.prems have "\<forall>env \<in> set envs. \<forall>u. opts (env u) = opts u \<and> stable (env u) = stable u"
    by simp
  from Cons.IH [OF h this] obtain s' where
    "stabilizing_calls fp envs (env s) = Inr (replicate (length envs) True, s')"
    "stable s'" "opts s' = opts (env s)" by blast
  with st e show ?case by simp
qed

text \<open>
  The stable flag is written by \<open>stabilizing\<close> only, after the test of \<^verbatim>\<open>opts.stabilize\<close>:
  a call keeps the fact that the phase is stable only with the stabilization feature
  enabled, and so does a sequence of calls between which the search loop leaves the
  options and the stable flag alone.
\<close>

lemma stabilizing_stable_enabled:
  assumes "stabilizing fp s = Inr (b, s')" and "stable s \<longrightarrow> opts_stabilize (opts s)"
  shows "stable s' \<longrightarrow> opts_stabilize (opts s')"
proof (cases "s' = s")
  case True
  with assms(2) show ?thesis by simp
next
  case False
  from stabilizing_changed [OF assms(1) False]
  have "opts_stabilize (opts s)" "s' = snd (stabilizing_switch fp s)" by simp_all
  then show ?thesis by (simp add: stabilizing_switch_frame)
qed

lemma stabilizing_calls_stable_enabled:
  assumes "stabilizing_calls fp envs s0 = Inr (bs, s1)"
    and "stable s0 \<longrightarrow> opts_stabilize (opts s0)"
    and "\<forall>env \<in> set envs. \<forall>u. opts (env u) = opts u \<and> stable (env u) = stable u"
  shows "stable s1 \<longrightarrow> opts_stabilize (opts s1)"
  using assms
proof (induction envs arbitrary: s0 bs)
  case Nil
  then show ?case by simp
next
  case (Cons env envs)
  from Cons.prems(1) obtain b s' bs' where
    st: "stabilizing fp (env s0) = Inr (b, s')" and
    rest: "stabilizing_calls fp envs s' = Inr (bs', s1)"
    by (auto split: sum.splits prod.splits)
  from Cons.prems(2,3) have "stable (env s0) \<longrightarrow> opts_stabilize (opts (env s0))" by simp
  from stabilizing_stable_enabled [OF st this]
  have inv: "stable s' \<longrightarrow> opts_stabilize (opts s')" .
  from Cons.prems(3)
  have "\<forall>env \<in> set envs. \<forall>u. opts (env u) = opts u \<and> stable (env u) = stable u" by simp
  from Cons.IH [OF rest inv this] show ?case .
qed

text \<open>
  C7. The search starts in the unstable phase (\<open>s0\<close>), calls \<open>stabilizing\<close> any number of
  times, and leaves the options and the stable flag alone between the calls. In every
  state \<open>s\<close> that it reaches, when stabilize-only mode is configured and the phase is
  stable, \<open>stabilizing\<close> returns true and leaves the state as it is; in every further
  sequence of calls every call returns true and the phase is stable at the end.
  \<open>restarting\<close>, with the restart feature enabled and the depth guard satisfied, returns
  the fire signal of the reluctant generator, whatever the glue averages and the
  arithmetic on them are.
\<close>

theorem stabilizeonly_sticky:
  assumes "\<not> stable s0"
    and "\<forall>env \<in> set envs0. \<forall>u. opts (env u) = opts u \<and> stable (env u) = stable u"
    and "stabilizing_calls fp envs0 s0 = Inr (bs, s1)"
    and "opts s = opts s1 \<and> stable s = stable s1"
    and "opts_stabilizeonly (opts s)" and "stable s"
  shows "stabilizing fp s = Inr (True, s) \<and>
         (\<forall>envs. (\<forall>env \<in> set envs. \<forall>u. opts (env u) = opts u \<and> stable (env u) = stable u) \<longrightarrow>
            (\<exists>s'. stabilizing_calls fp envs s = Inr (replicate (length envs) True, s') \<and>
                  stable s')) \<and>
         (opts_restart (opts s) \<and> length (assumptions s) + 2 \<le> level s \<longrightarrow>
            (\<forall>fp' a c. restarting fp' (s\<lparr>averages_current := a, averages_saved := c\<rparr>) =
               Inr (reluctant s, s\<lparr>averages_current := a, averages_saved := c\<rparr>)))"
proof -
  from assms(1) have "stable s0 \<longrightarrow> opts_stabilize (opts s0)" by simp
  from stabilizing_calls_stable_enabled [OF assms(3) this assms(2)] assms(4,6)
  have en: "opts_stabilize (opts s)" by simp
  note h = en assms(5) assms(6)
  have 1: "stabilizing fp s = Inr (True, s)"
    using h by (rule stabilizeonly_step)
  have 2: "\<exists>s'. stabilizing_calls fp envs s = Inr (replicate (length envs) True, s') \<and> stable s'"
    if "\<forall>env \<in> set envs. \<forall>u. opts (env u) = opts u \<and> stable (env u) = stable u" for envs
    using stabilizeonly_calls [OF h that] by blast
  have 3: "restarting fp' (s\<lparr>averages_current := a, averages_saved := c\<rparr>) =
               Inr (reluctant s, s\<lparr>averages_current := a, averages_saved := c\<rparr>)"
    if "opts_restart (opts s) \<and> length (assumptions s) + 2 \<le> level s"
    for fp' :: "'a fp_ops" and a c
    using that h by (simp add: stabilizing_def restarting_def)
  from 1 2 3 show ?thesis by blast
qed

theorem stabilizeonly_sticky_witness:
  "\<not> stable stabilizeonly_start \<and>
   stabilizing_calls fp_exact [advance 0 0] stabilizeonly_start =
     Inr ([True], stabilizeonly_state) \<and>
   opts_stabilizeonly (opts stabilizeonly_state) \<and> stable stabilizeonly_state \<and>
   stabilizing fp_exact stabilizeonly_state = Inr (True, stabilizeonly_state) \<and>
   restarting fp_exact stabilizeonly_state = Inr (True, stabilizeonly_state) \<and>
   stabilizing_calls fp_exact [advance 700 90000, advance 0 0, advance 1 5]
     stabilizeonly_state =
     Inr ([True, True, True], advance 701 90005 stabilizeonly_state)"
proof -
  have s0: "\<not> stable stabilizeonly_start"
    by (simp add: stabilizeonly_start_def flip_state_def init_def)
  have envs0: "\<forall>env \<in> set [advance 0 0 :: real Internal \<Rightarrow> real Internal].
      \<forall>u. opts (env u) = opts u \<and> stable (env u) = stable u"
    by (simp add: advance_def)
  have run: "stabilizing_calls fp_exact [advance 0 0] stabilizeonly_start =
      Inr ([True], stabilizeonly_state)"
    by (simp add: stabilizing_def stabilizing_switch_eq advance_def stabilizeonly_start_def
        stabilizeonly_state_def flip_state_def init_def opts0_def stats0_def Let_def)
  have h: "opts_stabilizeonly (opts stabilizeonly_state)" "stable stabilizeonly_state"
    "opts_restart (opts stabilizeonly_state) \<and>
     length (assumptions stabilizeonly_state) + 2 \<le> level stabilizeonly_state"
    "reluctant stabilizeonly_state"
    by (simp_all add: stabilizeonly_state_def stabilizeonly_start_def flip_state_def init_def
        opts0_def)
  have same: "opts stabilizeonly_state = opts stabilizeonly_state \<and>
      stable stabilizeonly_state = stable stabilizeonly_state" by simp
  let ?envs = "[advance 700 90000, advance 0 0, advance 1 5] :: (real Internal \<Rightarrow> real Internal) list"
  have envs: "\<forall>env \<in> set ?envs. \<forall>u. opts (env u) = opts u \<and> stable (env u) = stable u"
    by (simp add: advance_def)
  from stabilizeonly_sticky [OF s0 envs0 run same h(1,2)] h(3) envs
  have 1: "stabilizing fp_exact stabilizeonly_state = Inr (True, stabilizeonly_state)"
    and 2: "\<forall>fp' a c. restarting fp' (stabilizeonly_state\<lparr>averages_current := a, averages_saved := c\<rparr>) =
               Inr (reluctant stabilizeonly_state, stabilizeonly_state\<lparr>averages_current := a, averages_saved := c\<rparr>)"
    and 3: "\<exists>s'. stabilizing_calls fp_exact ?envs stabilizeonly_state =
               Inr (replicate (length ?envs) True, s') \<and> stable s'"
    by blast+
  from 2 have "restarting fp_exact (stabilizeonly_state\<lparr>averages_current := averages_current stabilizeonly_state,
       averages_saved := averages_saved stabilizeonly_state\<rparr>) =
     Inr (reluctant stabilizeonly_state, stabilizeonly_state\<lparr>averages_current := averages_current stabilizeonly_state,
       averages_saved := averages_saved stabilizeonly_state\<rparr>)" by blast
  then have 4: "restarting fp_exact stabilizeonly_state = Inr (True, stabilizeonly_state)"
    using h(4) by simp
  from 3 obtain s' where s': "stabilizing_calls fp_exact ?envs stabilizeonly_state =
      Inr ([True, True, True], s')"
    by (auto simp: numeral_3_eq_3)
  have 5: "stabilizing_calls fp_exact ?envs stabilizeonly_state =
      Inr ([True, True, True], advance 701 90005 stabilizeonly_state)"
    by (simp add: stabilizing_def advance_def stabilizeonly_state_def stabilizeonly_start_def
        flip_state_def init_def opts0_def stats0_def)
  from s0 run h(1,2) 1 4 5 s' show ?thesis by simp
qed

subsection \<open>Properties of \<^verbatim>\<open>reuse_trail\<close>\<close>

lemma reuse_loop_char:
  "reuse_loop keep ctrl lvl res = Inr r \<Longrightarrow>
     res \<le> r \<and> (res \<le> lvl \<longrightarrow> r \<le> lvl) \<and>
     (\<forall>l. res < l \<and> l \<le> r \<longrightarrow> decision (ctrl ! l) \<noteq> 0 \<and> keep (decision (ctrl ! l))) \<and>
     (r < lvl \<longrightarrow> \<not> (decision (ctrl ! (r + 1)) \<noteq> 0 \<and> keep (decision (ctrl ! (r + 1)))))"
proof (induction keep ctrl lvl res rule: reuse_loop.induct)
  case (1 keep ctrl lvl res)
  show ?case
  proof (cases "res < lvl \<and> \<not> length ctrl \<le> res + 1 \<and>
                decision (ctrl ! (res + 1)) \<noteq> 0 \<and> keep (decision (ctrl ! (res + 1)))")
    case True
    with "1.prems" have rec: "reuse_loop keep ctrl lvl (res + 1) = Inr r"
      by (simp add: reuse_loop.simps [of keep ctrl lvl res])
    from True have "res < lvl" "\<not> length ctrl \<le> res + 1"
      "decision (ctrl ! (res + 1)) \<noteq> 0 \<and> keep (decision (ctrl ! (res + 1)))" by simp_all
    from "1.IH" [OF this rec]
    have ih: "res + 1 \<le> r" "res + 1 \<le> lvl \<longrightarrow> r \<le> lvl"
      "\<forall>l. res + 1 < l \<and> l \<le> r \<longrightarrow> decision (ctrl ! l) \<noteq> 0 \<and> keep (decision (ctrl ! l))"
      "r < lvl \<longrightarrow> \<not> (decision (ctrl ! (r + 1)) \<noteq> 0 \<and> keep (decision (ctrl ! (r + 1))))"
      by blast+
    have "decision (ctrl ! l) \<noteq> 0 \<and> keep (decision (ctrl ! l))" if "res < l \<and> l \<le> r" for l
    proof (cases "l = res + 1")
      case True
      with \<open>decision (ctrl ! (res + 1)) \<noteq> 0 \<and> keep (decision (ctrl ! (res + 1)))\<close>
      show ?thesis by simp
    next
      case False
      with that have "res + 1 < l \<and> l \<le> r" by arith
      with ih(3) show ?thesis by blast
    qed
    with ih \<open>res < lvl\<close> show ?thesis by auto
  next
    case False
    with "1.prems" have "r = res"
      by (auto simp: reuse_loop.simps [of keep ctrl lvl res] split: if_splits)
    with False "1.prems" show ?thesis
      by (auto simp: reuse_loop.simps [of keep ctrl lvl res] split: if_splits)
  qed
qed

lemma reuse_loop_total:
  "lvl < length ctrl \<Longrightarrow> \<exists>r. reuse_loop keep ctrl lvl res = Inr r"
proof (induction keep ctrl lvl res rule: reuse_loop.induct)
  case (1 keep ctrl lvl res)
  show ?case
  proof (cases "res < lvl \<and> \<not> length ctrl \<le> res + 1 \<and>
                decision (ctrl ! (res + 1)) \<noteq> 0 \<and> keep (decision (ctrl ! (res + 1)))")
    case True
    then have "res < lvl" "\<not> length ctrl \<le> res + 1"
      "decision (ctrl ! (res + 1)) \<noteq> 0 \<and> keep (decision (ctrl ! (res + 1)))" by simp_all
    from "1.IH" [OF this "1.prems"] True show ?thesis
      by (simp add: reuse_loop.simps [of keep ctrl lvl res])
  next
    case False
    with "1.prems" show ?thesis
      by (auto simp: reuse_loop.simps [of keep ctrl lvl res])
  qed
qed

text \<open>The test of the loop that \<open>reuse_trail\<close> runs in the state \<open>s\<close>.\<close>

lemma reuse_trail_enabled:
  assumes "reuse_trail s = Inr (res, s')" and "opts_restartreusetrail (opts s)"
  shows "reuse_loop
           (if use_scores s then (\<lambda>lit. score_smaller s (next_decision_variable s) \<bar>lit\<bar>)
            else (\<lambda>lit. bumped s lit > bumped s (next_decision_variable s)))
           (control s) (level s) (trivial_decisions s) = Inr res"
  using assms
  by (auto simp: reuse_trail_def Let_def split: if_splits sum.splits)

lemma reuse_trail_stats:
  assumes "reuse_trail s = Inr (res, s')"
  shows "s' = (if trivial_decisions s < res
               then s\<lparr>stats := (stats s)\<lparr>stats_reused := stats_reused (stats s) + 1,
                      stats_reusedlevels :=
                        stats_reusedlevels (stats s) + (int res - int (trivial_decisions s)),
                      stats_reusedstable :=
                        stats_reusedstable (stats s) + (if stable s then 1 else 0)\<rparr>\<rparr>
               else s)"
  using assms
  by (auto simp: reuse_trail_def Let_def split: if_splits sum.splits)

lemma reuse_trail_disabled:
  assumes "\<not> opts_restartreusetrail (opts s)" and "length (assumptions s) + 1 < length (control s)"
  shows "reuse_trail s = Inr (trivial_decisions s, s)"
  using assms by (simp add: reuse_trail_def)

lemma reuse_trail_total:
  assumes "level s < length (control s)" and "length (assumptions s) + 1 \<le> level s"
    and "opts_restartreusetrail (opts s) \<longrightarrow> 1 \<le> next_decision_variable s"
  shows "\<exists>res s'. reuse_trail s = Inr (res, s')"
proof (cases "opts_restartreusetrail (opts s)")
  case False
  with assms show ?thesis by (simp add: reuse_trail_def)
next
  case True
  let ?keep = "if use_scores s then (\<lambda>lit. score_smaller s (next_decision_variable s) \<bar>lit\<bar>)
            else (\<lambda>lit. bumped s lit > bumped s (next_decision_variable s))"
  from reuse_loop_total [OF assms(1)]
  obtain r where "reuse_loop ?keep (control s) (level s) (trivial_decisions s) = Inr r"
    by blast
  with True assms show ?thesis
    by (auto simp: reuse_trail_def Let_def split: if_splits)
qed

lemma trivial_decisions_le:
  "length (assumptions s) \<le> trivial_decisions s \<and> trivial_decisions s \<le> length (assumptions s) + 1"
  by (simp add: trivial_decisions_def)

lemma reuse_loop_step:
  "res < lvl \<Longrightarrow> res + 1 < length ctrl \<Longrightarrow> decision (ctrl ! (res + 1)) \<noteq> 0 \<Longrightarrow>
   keep (decision (ctrl ! (res + 1))) \<Longrightarrow>
   reuse_loop keep ctrl lvl res = reuse_loop keep ctrl lvl (res + 1)"
  by (simp add: reuse_loop.simps [of keep ctrl lvl res])

lemma reuse_loop_stop:
  "res < lvl \<Longrightarrow> res + 1 < length ctrl \<Longrightarrow>
   \<not> (decision (ctrl ! (res + 1)) \<noteq> 0 \<and> keep (decision (ctrl ! (res + 1)))) \<Longrightarrow>
   reuse_loop keep ctrl lvl res = Inr res"
  by (auto simp: reuse_loop.simps [of keep ctrl lvl res])

lemma reuse_trail_bounds:
  assumes "reuse_trail s = Inr (res, s')" and "length (assumptions s) + 1 \<le> level s"
  shows "trivial_decisions s \<le> res \<and> res \<le> level s"
proof -
  from assms(2) trivial_decisions_le [of s] have tl: "trivial_decisions s \<le> level s" by arith
  show ?thesis
  proof (cases "opts_restartreusetrail (opts s)")
    case True
    from reuse_loop_char [OF reuse_trail_enabled [OF assms(1) True]] tl
    show ?thesis by blast
  next
    case False
    with assms(1) have "res = trivial_decisions s"
      by (auto simp: reuse_trail_def split: if_splits)
    with tl show ?thesis by simp
  qed
qed

lemma scenario_d_run: "reuse_trail scenario_d = Inr (2, scenario_d_after)"
  by (simp add: reuse_trail_def trivial_decisions_def scenario_d_def scenario_d_after_def
      init_def opts0_def stats0_def reuse_loop.simps Let_def)

text \<open>
  C1, as stated, fails in activity mode. In scenario D the walk goes past the levels 1
  and 2, whose decisions have the timestamps 7 and 9, not strictly less than the timestamp
  5 of the next decision; and it stops below level 3, whose decision has the timestamp 2,
  strictly less than 5.
\<close>

theorem reuse_trail_walk_claim_counterexample:
  "opts_restartreusetrail (opts scenario_d) \<and> \<not> use_scores scenario_d \<and>
   trivial_decisions scenario_d = 0 \<and> level scenario_d = 3 \<and>
   reuse_trail scenario_d = Inr (2, scenario_d_after) \<and>
   decision (control scenario_d ! 1) \<noteq> 0 \<and>
   \<not> bumped scenario_d (decision (control scenario_d ! 1))
       < bumped scenario_d (next_decision_variable scenario_d) \<and>
   decision (control scenario_d ! 3) \<noteq> 0 \<and>
   bumped scenario_d (decision (control scenario_d ! 3))
     < bumped scenario_d (next_decision_variable scenario_d)"
  by (simp add: reuse_trail_def trivial_decisions_def scenario_d_def scenario_d_after_def
      init_def opts0_def stats0_def reuse_loop.simps Let_def)

text \<open>
  C1, amended. With trail reuse enabled, \<open>reuse_trail\<close> walks upward one level at a time
  from \<open>trivial_decisions\<close>: every level \<open>l\<close> it passes has a real decision that ranks
  higher than the next decision (in score mode \<open>score_smaller\<close> holds of the next decision
  and the variable of the decision at \<open>l\<close>; in activity mode the timestamp of the decision
  at \<open>l\<close> is strictly greater than that of the next decision), and the walk stops at the
  first level where this fails, or at the top of the stack.
\<close>

theorem reuse_trail_walk:
  assumes "reuse_trail s = Inr (res, s')" and "opts_restartreusetrail (opts s)"
  shows "trivial_decisions s \<le> res \<and>
    (\<forall>l. trivial_decisions s < l \<and> l \<le> res \<longrightarrow>
        decision (control s ! l) \<noteq> 0 \<and>
        (if use_scores s
         then score_smaller s (next_decision_variable s) \<bar>decision (control s ! l)\<bar>
         else bumped s (next_decision_variable s) < bumped s (decision (control s ! l)))) \<and>
    (res < level s \<longrightarrow>
        \<not> (decision (control s ! (res + 1)) \<noteq> 0 \<and>
           (if use_scores s
            then score_smaller s (next_decision_variable s) \<bar>decision (control s ! (res + 1))\<bar>
            else bumped s (next_decision_variable s)
                   < bumped s (decision (control s ! (res + 1))))))"
proof (cases "use_scores s")
  case True
  with reuse_trail_enabled [OF assms]
  have "reuse_loop (\<lambda>lit. score_smaller s (next_decision_variable s) \<bar>lit\<bar>)
          (control s) (level s) (trivial_decisions s) = Inr res" by simp
  from reuse_loop_char [OF this] True show ?thesis by simp
next
  case False
  with reuse_trail_enabled [OF assms]
  have "reuse_loop (\<lambda>lit. bumped s lit > bumped s (next_decision_variable s))
          (control s) (level s) (trivial_decisions s) = Inr res" by simp
  from reuse_loop_char [OF this] False show ?thesis by simp
qed

theorem reuse_trail_walk_witness:
  "reuse_trail scenario_d = Inr (2, scenario_d_after) \<and>
   trivial_decisions scenario_d = 0 \<and>
   bumped scenario_d (next_decision_variable scenario_d)
     < bumped scenario_d (decision (control scenario_d ! 1)) \<and>
   bumped scenario_d (next_decision_variable scenario_d)
     < bumped scenario_d (decision (control scenario_d ! 2)) \<and>
   \<not> bumped scenario_d (next_decision_variable scenario_d)
     < bumped scenario_d (decision (control scenario_d ! 3))"
proof -
  have en: "opts_restartreusetrail (opts scenario_d)"
    by (simp add: scenario_d_def init_def opts0_def)
  have us: "\<not> use_scores scenario_d" "level scenario_d = 3"
    "decision (control scenario_d ! 3) \<noteq> 0"
    by (simp_all add: scenario_d_def init_def)
  have tr: "trivial_decisions scenario_d = 0"
    by (simp add: trivial_decisions_def scenario_d_def init_def)
  from reuse_trail_walk [OF scenario_d_run en] us tr
  have a: "\<forall>l. 0 < l \<and> l \<le> 2 \<longrightarrow>
        bumped scenario_d (next_decision_variable scenario_d)
          < bumped scenario_d (decision (control scenario_d ! l))"
    and b: "\<not> bumped scenario_d (next_decision_variable scenario_d)
          < bumped scenario_d (decision (control scenario_d ! 3))"
    by simp_all
  from a have "bumped scenario_d (next_decision_variable scenario_d)
          < bumped scenario_d (decision (control scenario_d ! 1))"
     "bumped scenario_d (next_decision_variable scenario_d)
          < bumped scenario_d (decision (control scenario_d ! 2))"
    by simp_all
  with b tr scenario_d_run show ?thesis by simp
qed

text \<open>
  C2. Whenever \<open>reuse_trail\<close> returns \<open>res\<close> above \<open>trivial_decisions\<close>, the state it leaves
  is the state before with \<open>stats.reused\<close> incremented, \<open>res - trivial_decisions\<close> added to
  \<open>stats.reusedlevels\<close>, and \<open>stats.reusedstable\<close> incremented exactly when the phase is
  stable; otherwise the state is not changed. In scenario D (activity ranking, no trivial
  decisions, three decision levels, the timestamps of the levels 1 and 2 strictly greater
  than that of the next decision, that of level 3 not) it returns 2, counts one reuse and
  adds 2 to the reused levels.
\<close>

theorem reuse_trail_counters:
  "(reuse_trail s = Inr (res, s') \<longrightarrow>
      s' = (if trivial_decisions s < res
            then s\<lparr>stats := (stats s)\<lparr>stats_reused := stats_reused (stats s) + 1,
                   stats_reusedlevels :=
                     stats_reusedlevels (stats s) + (int res - int (trivial_decisions s)),
                   stats_reusedstable :=
                     stats_reusedstable (stats s) + (if stable s then 1 else 0)\<rparr>\<rparr>
            else s)) \<and>
   (opts_restartreusetrail (opts t) \<and> \<not> use_scores t \<and> assumptions t = [] \<and>
    level t = 3 \<and> length (control t) = 4 \<and> 1 \<le> next_decision_variable t \<and>
    decision (control t ! 1) \<noteq> 0 \<and> decision (control t ! 2) \<noteq> 0 \<and>
    decision (control t ! 3) \<noteq> 0 \<and>
    bumped t (next_decision_variable t) < bumped t (decision (control t ! 1)) \<and>
    bumped t (next_decision_variable t) < bumped t (decision (control t ! 2)) \<and>
    \<not> bumped t (next_decision_variable t) < bumped t (decision (control t ! 3)) \<longrightarrow>
      (\<exists>t'. reuse_trail t = Inr (2, t') \<and>
            stats_reused (stats t') = stats_reused (stats t) + 1 \<and>
            stats_reusedlevels (stats t') = stats_reusedlevels (stats t) + 2))"
proof (intro conjI impI)
  assume "reuse_trail s = Inr (res, s')"
  then show "s' = (if trivial_decisions s < res
            then s\<lparr>stats := (stats s)\<lparr>stats_reused := stats_reused (stats s) + 1,
                   stats_reusedlevels :=
                     stats_reusedlevels (stats s) + (int res - int (trivial_decisions s)),
                   stats_reusedstable :=
                     stats_reusedstable (stats s) + (if stable s then 1 else 0)\<rparr>\<rparr>
            else s)"
    by (rule reuse_trail_stats)
next
  assume h: "opts_restartreusetrail (opts t) \<and> \<not> use_scores t \<and> assumptions t = [] \<and>
    level t = 3 \<and> length (control t) = 4 \<and> 1 \<le> next_decision_variable t \<and>
    decision (control t ! 1) \<noteq> 0 \<and> decision (control t ! 2) \<noteq> 0 \<and>
    decision (control t ! 3) \<noteq> 0 \<and>
    bumped t (next_decision_variable t) < bumped t (decision (control t ! 1)) \<and>
    bumped t (next_decision_variable t) < bumped t (decision (control t ! 2)) \<and>
    \<not> bumped t (next_decision_variable t) < bumped t (decision (control t ! 3))"
  let ?keep = "\<lambda>lit. bumped t (next_decision_variable t) < bumped t lit"
  have tr: "trivial_decisions t = 0"
    using h by (simp add: trivial_decisions_def)
  have l2: "reuse_loop ?keep (control t) 3 2 = Inr 2"
    by (rule reuse_loop_stop) (use h in \<open>simp_all add: numeral_2_eq_2 numeral_3_eq_3\<close>)
  have "reuse_loop ?keep (control t) 3 1 = reuse_loop ?keep (control t) 3 (1 + 1)"
    by (rule reuse_loop_step) (use h in \<open>simp_all add: numeral_2_eq_2 numeral_3_eq_3\<close>)
  with l2 have l1: "reuse_loop ?keep (control t) 3 1 = Inr 2" by (simp add: numeral_2_eq_2)
  have "reuse_loop ?keep (control t) 3 0 = reuse_loop ?keep (control t) 3 (0 + 1)"
    by (rule reuse_loop_step) (use h in \<open>simp_all add: numeral_2_eq_2 numeral_3_eq_3\<close>)
  with l1 have l0: "reuse_loop ?keep (control t) 3 0 = Inr 2" by simp
  from h tr l0 show "\<exists>t'. reuse_trail t = Inr (2, t') \<and>
            stats_reused (stats t') = stats_reused (stats t) + 1 \<and>
            stats_reusedlevels (stats t') = stats_reusedlevels (stats t) + 2"
    by (simp add: reuse_trail_def Let_def)
qed

text \<open>
  C5. When the decision depth is at least the assumption count plus 1, a result of
  \<open>reuse_trail\<close> lies between \<open>trivial_decisions\<close> and \<open>level\<close>; and there is a result when
  \<open>control\<close> has a frame for every level and the next decision variable is at least 1.
  With trail reuse disabled the result is exactly \<open>trivial_decisions\<close> and the state is not
  changed, whatever the other frames of \<open>control\<close> hold.
\<close>

theorem reuse_trail_range:
  "(length (assumptions s) + 1 \<le> level s \<and> reuse_trail s = Inr (res, s') \<longrightarrow>
      trivial_decisions s \<le> res \<and> res \<le> level s) \<and>
   (length (assumptions s) + 1 \<le> level s \<and> level s < length (control s) \<and>
    (opts_restartreusetrail (opts s) \<longrightarrow> 1 \<le> next_decision_variable s) \<longrightarrow>
      (\<exists>r u. reuse_trail s = Inr (r, u))) \<and>
   (\<not> opts_restartreusetrail (opts s) \<and> length (assumptions s) + 1 < length (control s) \<longrightarrow>
      reuse_trail s = Inr (trivial_decisions s, s) \<and>
      (\<forall>c. length (assumptions s) + 1 < length c \<and>
           decision (c ! (length (assumptions s) + 1)) =
             decision (control s ! (length (assumptions s) + 1)) \<longrightarrow>
           reuse_trail (s\<lparr>control := c\<rparr>) = Inr (trivial_decisions s, s\<lparr>control := c\<rparr>)))"
proof -
  have a: "trivial_decisions s \<le> res \<and> res \<le> level s"
    if "length (assumptions s) + 1 \<le> level s \<and> reuse_trail s = Inr (res, s')"
    using that reuse_trail_bounds [of s res s'] by blast
  have b: "\<exists>r u. reuse_trail s = Inr (r, u)"
    if "length (assumptions s) + 1 \<le> level s \<and> level s < length (control s) \<and>
        (opts_restartreusetrail (opts s) \<longrightarrow> 1 \<le> next_decision_variable s)"
    using that reuse_trail_total [of s] by blast
  have c: "reuse_trail s = Inr (trivial_decisions s, s) \<and>
      (\<forall>c. length (assumptions s) + 1 < length c \<and>
           decision (c ! (length (assumptions s) + 1)) =
             decision (control s ! (length (assumptions s) + 1)) \<longrightarrow>
           reuse_trail (s\<lparr>control := c\<rparr>) = Inr (trivial_decisions s, s\<lparr>control := c\<rparr>))"
    if "\<not> opts_restartreusetrail (opts s) \<and> length (assumptions s) + 1 < length (control s)"
    using that by (simp add: reuse_trail_def trivial_decisions_def)
  from a b c show ?thesis by blast
qed

theorem reuse_trail_counters_witness:
  "reuse_trail scenario_d = Inr (2, scenario_d_after) \<and>
   stats_reused (stats scenario_d_after) = stats_reused (stats scenario_d) + 1 \<and>
   stats_reusedlevels (stats scenario_d_after) = stats_reusedlevels (stats scenario_d) + 2 \<and>
   stats_reusedstable (stats scenario_d_after) = stats_reusedstable (stats scenario_d)"
proof -
  have h: "opts_restartreusetrail (opts scenario_d) \<and> \<not> use_scores scenario_d \<and>
    assumptions scenario_d = [] \<and> level scenario_d = 3 \<and> length (control scenario_d) = 4 \<and>
    1 \<le> next_decision_variable scenario_d \<and>
    decision (control scenario_d ! 1) \<noteq> 0 \<and> decision (control scenario_d ! 2) \<noteq> 0 \<and>
    decision (control scenario_d ! 3) \<noteq> 0 \<and>
    bumped scenario_d (next_decision_variable scenario_d)
      < bumped scenario_d (decision (control scenario_d ! 1)) \<and>
    bumped scenario_d (next_decision_variable scenario_d)
      < bumped scenario_d (decision (control scenario_d ! 2)) \<and>
    \<not> bumped scenario_d (next_decision_variable scenario_d)
      < bumped scenario_d (decision (control scenario_d ! 3))"
    by (simp add: scenario_d_def init_def opts0_def)
  have tr: "trivial_decisions scenario_d < 2" "\<not> stable scenario_d"
    by (simp_all add: trivial_decisions_def scenario_d_def init_def)
  from reuse_trail_counters [of scenario_d 2 scenario_d_after scenario_d] h
  obtain t' where t': "reuse_trail scenario_d = Inr (2, t')"
    "stats_reused (stats t') = stats_reused (stats scenario_d) + 1"
    "stats_reusedlevels (stats t') = stats_reusedlevels (stats scenario_d) + 2"
    by blast
  from reuse_trail_counters [of scenario_d 2 t' scenario_d] t'(1) tr
  have "stats_reusedstable (stats t') = stats_reusedstable (stats scenario_d)"
    by simp
  moreover from t'(1) scenario_d_run have "t' = scenario_d_after" by simp
  ultimately show ?thesis using t' by simp
qed

theorem reuse_trail_range_witness:
  "reuse_trail scenario_d = Inr (2, scenario_d_after) \<and>
   trivial_decisions scenario_d \<le> 2 \<and> 2 \<le> level scenario_d \<and>
   reuse_trail scenario_c = Inr (0, scenario_c) \<and> level scenario_c = 4"
proof -
  have d: "length (assumptions scenario_d) + 1 \<le> level scenario_d"
    by (simp add: scenario_d_def init_def)
  have c: "\<not> opts_restartreusetrail (opts scenario_c) \<and>
      length (assumptions scenario_c) + 1 < length (control scenario_c)"
    "trivial_decisions scenario_c = 0" "level scenario_c = 4"
    by (simp_all add: scenario_c_def init_def opts0_def trivial_decisions_def)
  from reuse_trail_range [of scenario_d 2 scenario_d_after] d scenario_d_run
  have 1: "trivial_decisions scenario_d \<le> 2 \<and> 2 \<le> level scenario_d" by blast
  from reuse_trail_range [of scenario_c] c(1)
  have "reuse_trail scenario_c = Inr (trivial_decisions scenario_c, scenario_c)" by blast
  with c 1 scenario_d_run show ?thesis by simp
qed

subsection \<open>Properties of \<^verbatim>\<open>restart\<close>\<close>

lemma reuse_trail_level:
  "map_sum id fst (reuse_trail s) =
     (if length (control s) \<le> length (assumptions s) + 1 then Inl OutOfRange
      else if \<not> opts_restartreusetrail (opts s) then Inr (trivial_decisions s)
      else if \<not> 1 \<le> next_decision_variable s then Inl AssertionFailed
      else reuse_loop
             (if use_scores s then (\<lambda>lit. score_smaller s (next_decision_variable s) \<bar>lit\<bar>)
              else (\<lambda>lit. bumped s lit > bumped s (next_decision_variable s)))
             (control s) (level s) (trivial_decisions s))"
  by (simp add: reuse_trail_def Let_def split: sum.splits)

lemma reuse_trail_stats_indep:
  "map_sum id fst (reuse_trail (s\<lparr>stats := st\<rparr>)) = map_sum id fst (reuse_trail s)"
  by (simp add: reuse_trail_level trivial_decisions_def)

lemma reuse_trail_frame:
  assumes "reuse_trail s = Inr (res, s')"
  shows "level s' = level s \<and> control s' = control s \<and> opts s' = opts s \<and>
         stats_conflicts (stats s') = stats_conflicts (stats s) \<and>
         stats_restarts (stats s') = stats_restarts (stats s) \<and>
         stats_restartlevels (stats s') = stats_restartlevels (stats s) \<and>
         stats_restartstable (stats s') = stats_restartstable (stats s)"
  using reuse_trail_stats [OF assms] by (simp split: if_splits)

text \<open>
  C9. A call of \<open>restart\<close> that returns has incremented \<open>stats.restarts\<close>, added the level
  before the restart to \<open>stats.restartlevels\<close>, incremented \<open>stats.restartstable\<close> exactly
  when the phase is stable, backtracked to the level that \<open>reuse_trail\<close> returns (the new
  level is that level, and \<open>control\<close> is cut above it), and set \<open>lim.restart\<close> to the
  conflict count plus \<open>opts.restartint\<close>. The call returns when the decision depth is at
  least the assumption count plus 1, \<open>control\<close> has a frame for every level and the next
  decision variable is at least 1.
\<close>

theorem restart_effects:
  "(restart s = Inr s' \<longrightarrow>
      (\<exists>res u. reuse_trail s = Inr (res, u) \<and> level s' = res \<and>
               control s' = take (res + 1) (control s)) \<and>
      stats_restarts (stats s') = stats_restarts (stats s) + 1 \<and>
      stats_restartlevels (stats s') = stats_restartlevels (stats s) + int (level s) \<and>
      stats_restartstable (stats s') =
        stats_restartstable (stats s) + (if stable s then 1 else 0) \<and>
      stats_conflicts (stats s') = stats_conflicts (stats s) \<and>
      lim_restart s' = stats_conflicts (stats s) + opts_restartint (opts s)) \<and>
   (length (assumptions s) + 1 \<le> level s \<and> level s < length (control s) \<and>
    (opts_restartreusetrail (opts s) \<longrightarrow> 1 \<le> next_decision_variable s) \<longrightarrow>
      (\<exists>t. restart s = Inr t))"
proof -
  define s3 where "s3 =
      (let s1 = s\<lparr>stats := (stats s)\<lparr>stats_restarts := stats_restarts (stats s) + 1\<rparr>\<rparr>;
           s2 = s1\<lparr>stats := (stats s1)\<lparr>stats_restartlevels :=
                                         stats_restartlevels (stats s1) + int (level s1)\<rparr>\<rparr>
       in if stable s2
          then s2\<lparr>stats := (stats s2)\<lparr>stats_restartstable :=
                                         stats_restartstable (stats s2) + 1\<rparr>\<rparr>
          else s2)"
  have unfold: "restart s =
      (case reuse_trail s3 of
         Inl e \<Rightarrow> Inl e
       | Inr (res, s4) \<Rightarrow>
           (case backtrack res s4 of
              Inl e \<Rightarrow> Inl e
            | Inr s5 \<Rightarrow>
                (let s6 = s5\<lparr>lim_restart :=
                               stats_conflicts (stats s5) + opts_restartint (opts s5)\<rparr>
                 in Inr (report (CHR ''R'') s6))))"
    unfolding restart_def s3_def Let_def by (rule refl)
  have s3: "level s3 = level s" "control s3 = control s" "opts s3 = opts s"
    "assumptions s3 = assumptions s" "next_decision_variable s3 = next_decision_variable s"
    "stats_conflicts (stats s3) = stats_conflicts (stats s)"
    "stats_restarts (stats s3) = stats_restarts (stats s) + 1"
    "stats_restartlevels (stats s3) = stats_restartlevels (stats s) + int (level s)"
    "stats_restartstable (stats s3) =
       stats_restartstable (stats s) + (if stable s then 1 else 0)"
    by (simp_all add: s3_def Let_def)
  have s3_eq: "\<exists>st. s3 = s\<lparr>stats := st\<rparr>"
    by (cases "stable s") (auto simp: s3_def Let_def)
  have indep: "map_sum id fst (reuse_trail s3) = map_sum id fst (reuse_trail s)"
    using s3_eq reuse_trail_stats_indep [of _ s] by auto
  have part1: "(\<exists>res u. reuse_trail s = Inr (res, u) \<and> level s' = res \<and>
               control s' = take (res + 1) (control s)) \<and>
      stats_restarts (stats s') = stats_restarts (stats s) + 1 \<and>
      stats_restartlevels (stats s') = stats_restartlevels (stats s) + int (level s) \<and>
      stats_restartstable (stats s') =
        stats_restartstable (stats s) + (if stable s then 1 else 0) \<and>
      stats_conflicts (stats s') = stats_conflicts (stats s) \<and>
      lim_restart s' = stats_conflicts (stats s) + opts_restartint (opts s)"
    if run: "restart s = Inr s'"
  proof -
    from run unfold obtain res s4 where r3: "reuse_trail s3 = Inr (res, s4)"
      by (cases "reuse_trail s3") auto
    with run unfold obtain s5 where bt: "backtrack res s4 = Inr s5"
      by (cases "backtrack res s4") auto
    from run unfold r3 bt
    have s': "s' = report (CHR ''R'')
        (s5\<lparr>lim_restart := stats_conflicts (stats s5) + opts_restartint (opts s5)\<rparr>)"
      by (simp add: Let_def)
    from bt have s5: "s5 = s4\<lparr>control := take (res + 1) (control s4), level := res\<rparr>"
      by (auto simp: backtrack_def split: if_splits)
    from r3 indep have "map_sum id fst (reuse_trail s) = Inr res" by simp
    then obtain u where u: "reuse_trail s = Inr (res, u)"
      by (cases "reuse_trail s") auto
    from reuse_trail_frame [OF r3] s3 s' s5 u show ?thesis
      by (simp add: report_def)
  qed
  have part2: "\<exists>t. restart s = Inr t"
    if wf: "length (assumptions s) + 1 \<le> level s \<and> level s < length (control s) \<and>
    (opts_restartreusetrail (opts s) \<longrightarrow> 1 \<le> next_decision_variable s)"
  proof -
    from wf s3 have "level s3 < length (control s3)" "length (assumptions s3) + 1 \<le> level s3"
      "opts_restartreusetrail (opts s3) \<longrightarrow> 1 \<le> next_decision_variable s3"
      by simp_all
    from reuse_trail_total [OF this]
    obtain res s4 where r3: "reuse_trail s3 = Inr (res, s4)" by blast
    from reuse_trail_bounds [OF r3] wf s3
    have "res \<le> level s3" by simp
    with reuse_trail_frame [OF r3] have "\<not> level s4 < res" by simp
    then obtain s5 where "backtrack res s4 = Inr s5"
      by (simp add: backtrack_def)
    with r3 unfold show ?thesis by (simp add: Let_def)
  qed
  from part1 part2 show ?thesis by blast
qed

theorem restart_effects_witness:
  "restart scenario_c = Inr scenario_c_restarted \<and>
   reuse_trail scenario_c = Inr (0, scenario_c) \<and>
   level scenario_c_restarted = 0 \<and>
   stats_restarts (stats scenario_c_restarted) = stats_restarts (stats scenario_c) + 1 \<and>
   stats_restartlevels (stats scenario_c_restarted) = stats_restartlevels (stats scenario_c) + 4 \<and>
   lim_restart scenario_c_restarted = stats_conflicts (stats scenario_c) + 2"
proof -
  have run: "restart scenario_c = Inr scenario_c_restarted"
    by (simp add: restart_def reuse_trail_def trivial_decisions_def backtrack_def report_def
        scenario_c_def scenario_c_restarted_def init_def opts0_def stats0_def Let_def)
  have rt: "reuse_trail scenario_c = Inr (0, scenario_c)"
    by (simp add: reuse_trail_def trivial_decisions_def scenario_c_def init_def opts0_def)
  have v: "level scenario_c = 4" "opts_restartint (opts scenario_c) = 2"
    by (simp_all add: scenario_c_def init_def opts0_def)
  from restart_effects [of scenario_c scenario_c_restarted] run
  have "(\<exists>res u. reuse_trail scenario_c = Inr (res, u) \<and> level scenario_c_restarted = res \<and>
               control scenario_c_restarted = take (res + 1) (control scenario_c))"
    and "stats_restarts (stats scenario_c_restarted) = stats_restarts (stats scenario_c) + 1"
    and "stats_restartlevels (stats scenario_c_restarted) =
           stats_restartlevels (stats scenario_c) + int (level scenario_c)"
    and "lim_restart scenario_c_restarted =
           stats_conflicts (stats scenario_c) + opts_restartint (opts scenario_c)"
    by blast+
  with rt v run show ?thesis by auto
qed

subsection \<open>The interval 0 after the first calibration\<close>

text \<open>
  C10. The claim is what the assertion of line 24 says, and the code breaks it: when the
  first calibration happens with the tick counter equal to \<^verbatim>\<open>last.stabilize.ticks\<close>, the
  measured interval is 0, \<^verbatim>\<open>inc.stabilize\<close> keeps the value 0 of the sentinel and the phase
  becomes stable; the next call, with no counter advanced, takes the pre-calibration
  branch with the stable flag set and the assertion fails.
\<close>

theorem stabilizing_sentinel_assertion_fails:
  "\<not> stable sentinel_state \<and> inc_stabilize sentinel_state = 0 \<and>
   stabilizing fp_exact sentinel_state = Inr (True, sentinel_after) \<and>
   inc_stabilize sentinel_after = 0 \<and> stable sentinel_after \<and>
   stabilizing fp_exact sentinel_after = Inl AssertionFailed \<and>
   stabilizing_calls fp_exact [advance 0 0, advance 0 0] sentinel_state = Inl AssertionFailed"
  by (simp add: stabilizing_def stabilizing_switch_eq sentinel_state_def sentinel_after_def
      advance_def init_def opts0_def stats0_def Let_def)

text \<open>
  C8. From the same state, the first call switches the phase and returns true; the second
  call, with the conflict and tick counters as they were, does not return true with the
  state unchanged.
\<close>

theorem stabilizing_sentinel_not_idempotent:
  "stabilizing fp_exact sentinel_state = Inr (True, sentinel_after) \<and>
   stats_conflicts (stats sentinel_after) = stats_conflicts (stats sentinel_state) \<and>
   stats_ticks_search (stats sentinel_after) = stats_ticks_search (stats sentinel_state) \<and>
   stabilizing fp_exact sentinel_after \<noteq> Inr (True, sentinel_after)"
  by (simp add: stabilizing_def stabilizing_switch_eq sentinel_state_def sentinel_after_def
      init_def opts0_def stats0_def Let_def)

text \<open>
  Compiled with \<^verbatim>\<open>NDEBUG\<close>, \<open>stabilizing\<close> agrees with the model above wherever the
  assertion holds. From \<open>sentinel_state\<close> the second call then compares the conflict count
  1001 with the limit 501, which is a tick count, and switches the phase back: it returns
  false after the first call returned true, and the interval is still 0.
\<close>

lemma stabilizing_NDEBUG_agrees:
  "stabilizing fp s = Inr r \<Longrightarrow> stabilizing_NDEBUG fp s = r"
  by (auto simp: stabilizing_def stabilizing_NDEBUG_def split: if_splits)

lemma stabilizing_NDEBUG_sentinel:
  "stabilizing_NDEBUG fp_exact sentinel_state = (True, sentinel_after) \<and>
   stabilizing_NDEBUG fp_exact sentinel_after = (False, sentinel_after2) \<and>
   inc_stabilize sentinel_after2 = 0 \<and>
   stats_conflicts (stats sentinel_after2) = 1001 \<and> lim_stabilize sentinel_after2 = 501"
  by (simp add: stabilizing_NDEBUG_def stabilizing_switch_eq sentinel_state_def
      sentinel_after_def sentinel_after2_def init_def opts0_def stats0_def Let_def)

end
